theory Spec2Isabelle
  imports Main "HOL-Library.Sublist"
begin

section \<open>Strings as Python sees them\<close>

text \<open>
  A Python \<open>str\<close> is modelled as a \<open>string\<close>, one \<open>char\<close> per code point; the model
  therefore covers the texts whose code points lie below 256.  The character classes
  below are the ones Python uses on that range: \<open>str.isspace\<close>, and the regular
  expression classes \<open>\w\<close> and \<open>\d\<close> of \<open>re\<close> on \<open>str\<close> patterns.
\<close>

definition is_space :: "char \<Rightarrow> bool" where
  "is_space c = (let n = (of_char c :: nat) in
     (9 \<le> n \<and> n \<le> 13) \<or> (28 \<le> n \<and> n \<le> 32) \<or> n = 133 \<or> n = 160)"

definition is_digit :: "char \<Rightarrow> bool" where
  "is_digit c = (let n = (of_char c :: nat) in 48 \<le> n \<and> n \<le> 57)"

definition is_word :: "char \<Rightarrow> bool" where
  "is_word c = (let n = (of_char c :: nat) in
     (48 \<le> n \<and> n \<le> 57) \<or> (65 \<le> n \<and> n \<le> 90) \<or> n = 95 \<or> (97 \<le> n \<and> n \<le> 122) \<or>
     n = 170 \<or> n = 178 \<or> n = 179 \<or> n = 181 \<or> n = 185 \<or> n = 186 \<or>
     (188 \<le> n \<and> n \<le> 190) \<or> (192 \<le> n \<and> n \<le> 214) \<or> (216 \<le> n \<and> n \<le> 246) \<or>
     (248 \<le> n \<and> n \<le> 255))"

text \<open>\<open>s.lstrip()\<close>, \<open>s.rstrip()\<close> and \<open>s.strip()\<close> without arguments.\<close>

definition str_lstrip :: "string \<Rightarrow> string" where
  "str_lstrip s = dropWhile is_space s"

definition str_rstrip :: "string \<Rightarrow> string" where
  "str_rstrip s = rev (dropWhile is_space (rev s))"

definition str_strip :: "string \<Rightarrow> string" where
  "str_strip s = str_lstrip (str_rstrip s)"

text \<open>\<open>sep.join(xs)\<close>.\<close>

fun str_join :: "string \<Rightarrow> string list \<Rightarrow> string" where
  "str_join sep [] = []"
| "str_join sep [x] = x"
| "str_join sep (x # y # ys) = x @ sep @ str_join sep (y # ys)"

text \<open>\<open>s.replace(c, r)\<close> for a one-character pattern \<open>c\<close>.\<close>

definition str_replace :: "char \<Rightarrow> string \<Rightarrow> string \<Rightarrow> string" where
  "str_replace c r s = concat (map (\<lambda>x. if x = c then r else [x]) s)"

text \<open>
  \<open>s.expandtabs(8)\<close>: a tab becomes the spaces up to the next multiple of eight of the
  column, and a line feed or carriage return resets the column.
\<close>

fun expandtabs :: "nat \<Rightarrow> string \<Rightarrow> string" where
  "expandtabs col [] = []"
| "expandtabs col (c # cs) =
     (if c = CHR 0x09 then
        replicate (8 - col mod 8) CHR '' '' @ expandtabs (col + (8 - col mod 8)) cs
      else if c = CHR 0x0A \<or> c = CHR 0x0D then c # expandtabs 0 cs
      else c # expandtabs (col + 1) cs)"

section \<open>html.escape\<close>

text \<open>
  \<open>html.escape(s, quote=True)\<close> of the standard library: five replacements, the
  ampersand first.
\<close>

definition html_escape :: "string \<Rightarrow> string" where
  \<open>html_escape s =
     str_replace (CHR 0x27) ''&#x27;''
       (str_replace (CHR 0x22) ''&quot;''
         (str_replace CHR ''>'' ''&gt;''
           (str_replace CHR ''<'' ''&lt;''
             (str_replace CHR ''&'' ''&amp;'' s))))\<close>

section \<open>textwrap.TextWrapper\<close>

text \<open>
  The two wrappers of the module are \<open>TextWrapper(width=40, max_lines=3)\<close> and
  \<open>TextWrapper(width=24, max_lines=3)\<close>; every other attribute has its default:
  no indents, tabs expanded at size 8, whitespace replaced, sentence endings not fixed,
  long words broken, whitespace dropped, hyphens broken on, and the placeholder
  \<open>' [...]'\<close>.  The model takes the width and the line limit as arguments and fixes the
  defaults.
\<close>

datatype error = ValueError

definition whitespace :: string where
  "whitespace = [CHR 0x09, CHR 0x0A, CHR 0x0B, CHR 0x0C, CHR 0x0D, CHR '' '']"

definition placeholder :: string where
  "placeholder = '' [...]''"

definition munge_whitespace :: "string \<Rightarrow> string" where
  "munge_whitespace text =
     map (\<lambda>c. if c \<in> set whitespace then CHR '' '' else c) (expandtabs 0 text)"

subsection \<open>The chunk splitter\<close>

text \<open>
  \<open>wordsep_re\<close> is one group of three alternatives: a run of whitespace; an em-dash (two
  or more hyphens) after a word-or-punctuation character and before a word character;
  or a shortest non-empty run of non-whitespace that ends after a hyphen of a compound
  word, or before whitespace or the end of the text, or before an em-dash.  One of the
  alternatives matches at every position of a non-empty text, so \<open>wordsep_re.split\<close>
  returns the successive matches with empty strings between them, which \<open>_split\<close>
  filters out.  The look-behinds read the text to the left of the position, which the
  scanner carries reversed in \<open>l\<close>.
\<close>

definition is_letter :: "char \<Rightarrow> bool" where
  "is_letter c = (is_word c \<and> \<not> is_digit c)"

definition is_word_punct :: "char \<Rightarrow> bool" where
  \<open>is_word_punct c =
     (is_word c \<or> c \<in> set [CHR ''!'', CHR 0x22, CHR 0x27, CHR ''&'', CHR ''.'', CHR '','', CHR ''?''])\<close>

definition is_hyphen :: "char \<Rightarrow> bool" where
  "is_hyphen c = (c = CHR ''-'')"

text \<open>\<open>-{2,}\w\<close> at the start of \<open>r\<close>.\<close>

definition dashes_then_word :: "string \<Rightarrow> bool" where
  "dashes_then_word r =
     (2 \<le> length (takeWhile is_hyphen r) \<and>
      (case dropWhile is_hyphen r of [] \<Rightarrow> False | c # _ \<Rightarrow> is_word c))"

text \<open>
  The look-behinds \<open>(?<=lt{2}-)\<close> and \<open>(?<=lt-lt-)\<close> just after a hyphen, on the reversed
  text to the left of that hyphen; and the look-ahead \<open>(?=lt -? lt)\<close> on the text to its
  right.
\<close>

fun hyphen_behind :: "string \<Rightarrow> bool" where
  "hyphen_behind (a # b # l) =
     (is_letter a \<and> (is_letter b \<or> (is_hyphen b \<and> (case l of [] \<Rightarrow> False | c # _ \<Rightarrow> is_letter c))))"
| "hyphen_behind _ = False"

fun hyphen_ahead :: "string \<Rightarrow> bool" where
  "hyphen_ahead (a # b # r) =
     (is_letter a \<and> (is_letter b \<or> (is_hyphen b \<and> (case r of [] \<Rightarrow> False | c # _ \<Rightarrow> is_letter c))))"
| "hyphen_ahead _ = False"

text \<open>
  The word alternative, after its first character: the number of further characters the
  lazy run takes, the closing hyphen included.
\<close>

fun word_end :: "string \<Rightarrow> string \<Rightarrow> nat" where
  "word_end l [] = 0"
| "word_end l (c # r) =
     (if is_hyphen c \<and> hyphen_behind l \<and> hyphen_ahead r then 1
      else if c \<in> set whitespace then 0
      else if l \<noteq> [] \<and> is_word_punct (hd l) \<and> dashes_then_word (c # r) then 0
      else 1 + word_end (c # l) r)"

function split_re :: "string \<Rightarrow> string \<Rightarrow> string list" where
  "split_re l [] = []"
| "split_re l (c # r) =
     (let m = (if c \<in> set whitespace then length (takeWhile (\<lambda>x. x \<in> set whitespace) r)
               else if l \<noteq> [] \<and> is_word_punct (hd l) \<and> dashes_then_word (c # r)
                 then length (takeWhile is_hyphen r)
               else word_end (c # l) r)
      in (c # take m r) # split_re (rev (c # take m r) @ l) (drop m r))"
  by pat_completeness auto
termination
  by (relation "measure (\<lambda>(l, r). length r)") auto

definition split :: "string \<Rightarrow> string list" where
  "split text = filter (\<lambda>c. c \<noteq> []) (split_re [] text)"

subsection \<open>Wrapping the chunks\<close>

text \<open>
  \<open>_wrap_chunks\<close> reverses the chunk list and pops from its end; the model keeps the
  list in reading order and takes from its head.  \<open>cur_len\<close> is, at every point of the
  source, the total length of the chunks of \<open>cur_line\<close>, and the model computes it so.
\<close>

definition cur_len :: "string list \<Rightarrow> nat" where
  "cur_len cur_line = sum_list (map length cur_line)"

text \<open>
  \<open>chunk.rfind('-', 0, n)\<close>: the highest index below \<open>n\<close> that holds a hyphen.
\<close>

fun rfind_hyphen :: "string \<Rightarrow> nat \<Rightarrow> nat option" where
  "rfind_hyphen chunk 0 = None"
| "rfind_hyphen chunk (Suc n) =
     (if n < length chunk \<and> is_hyphen (chunk ! n) then Some n else rfind_hyphen chunk n)"

text \<open>
  \<open>_handle_long_word\<close> with \<open>break_long_words\<close> and \<open>break_on_hyphens\<close> set; it is called
  with a non-empty chunk list, and returns the new current line and the new chunks.
\<close>

definition handle_long_word ::
  "nat \<Rightarrow> string list \<Rightarrow> string list \<Rightarrow> string list \<times> string list" where
  "handle_long_word width chunks cur_line =
     (let space_left = (if width < 1 then 1 else width - cur_len cur_line);
          chunk = hd chunks;
          end = (if length chunk > space_left then
                   (case rfind_hyphen chunk space_left of
                      Some hyphen \<Rightarrow>
                        if hyphen > 0 \<and> list_ex (\<lambda>c. \<not> is_hyphen c) (take hyphen chunk)
                        then hyphen + 1 else space_left
                    | None \<Rightarrow> space_left)
                 else space_left)
      in (cur_line @ [take end chunk], drop end chunk # tl chunks))"

text \<open>The inner loop: chunks are taken while they fit on the line.\<close>

fun take_fitting :: "nat \<Rightarrow> string list \<Rightarrow> string list \<Rightarrow> string list \<times> string list" where
  "take_fitting width cur_line [] = (cur_line, [])"
| "take_fitting width cur_line (c # chunks) =
     (if cur_len cur_line + length c \<le> width then take_fitting width (cur_line @ [c]) chunks
      else (cur_line, c # chunks))"

text \<open>
  One pass of the outer loop up to the test \<open>if cur_line\<close>, on a non-empty chunk list:
  a leading whitespace chunk is dropped unless no line exists yet, the line is filled, a
  word too long for any line is broken, and a trailing whitespace chunk is dropped.
\<close>

definition next_line :: "nat \<Rightarrow> string list \<Rightarrow> string list \<Rightarrow> string list \<times> string list" where
  "next_line width lines chunks =
     (let chunks1 = (if str_strip (hd chunks) = [] \<and> lines \<noteq> [] then tl chunks else chunks);
          (cur_line1, chunks2) = take_fitting width [] chunks1;
          (cur_line2, chunks3) =
             (if chunks2 \<noteq> [] \<and> length (hd chunks2) > width
              then handle_long_word width chunks2 cur_line1 else (cur_line1, chunks2));
          cur_line = (if cur_line2 \<noteq> [] \<and> str_strip (last cur_line2) = []
                      then butlast cur_line2 else cur_line2)
      in (cur_line, chunks3))"

text \<open>
  The truncation loop \<open>while cur_line: ... else: ...\<close>: chunks are removed from the end of
  the line until the last one is not whitespace and leaves room for the placeholder
  (the result is \<open>Some\<close> line); \<open>None\<close> is the loop's \<open>else\<close>, reached when the line is
  used up.
\<close>

function drop_to_fit :: "nat \<Rightarrow> string list \<Rightarrow> string list option" where
  "drop_to_fit width cur_line =
     (if cur_line = [] then None
      else if str_strip (last cur_line) \<noteq> [] \<and> cur_len cur_line + length placeholder \<le> width
        then Some (cur_line @ [placeholder])
      else drop_to_fit width (butlast cur_line))"
  by pat_completeness auto
termination
  by (relation "measure (\<lambda>(w, cur_line). length cur_line)") auto

definition truncate :: "nat \<Rightarrow> string list \<Rightarrow> string list \<Rightarrow> string list" where
  "truncate width lines cur_line =
     (case drop_to_fit width cur_line of
        Some line \<Rightarrow> lines @ [concat line]
      | None \<Rightarrow>
          if lines \<noteq> [] \<and> length (str_rstrip (last lines)) + length placeholder \<le> width
          then butlast lines @ [str_rstrip (last lines) @ placeholder]
          else lines @ [str_lstrip placeholder])"

definition chunks_size :: "string list \<Rightarrow> nat" where
  "chunks_size chunks = sum_list (map (\<lambda>c. Suc (length c)) chunks)"

lemma take_fitting_size:
  "chunks_size (snd (take_fitting width cur_line chunks)) \<le> chunks_size chunks"
  by (induction width cur_line chunks rule: take_fitting.induct) (auto simp: chunks_size_def)

lemma take_fitting_first:
  "length c \<le> width \<Longrightarrow>
   chunks_size (snd (take_fitting width [] (c # chunks))) < chunks_size (c # chunks)"
  using take_fitting_size [of width "[c]" chunks]
  by (simp add: chunks_size_def cur_len_def)

lemma take_fitting_stuck:
  "width < length c \<Longrightarrow> take_fitting width [] (c # chunks) = ([], c # chunks)"
  by (simp add: cur_len_def)

lemma rfind_hyphen_less: "rfind_hyphen chunk n = Some h \<Longrightarrow> h < n"
  by (induction n) (auto split: if_splits)

lemma handle_long_word_size:
  assumes "chunks \<noteq> []"
  shows "chunks_size (snd (handle_long_word width chunks cur_line)) \<le> chunks_size chunks"
proof -
  obtain c cs where "chunks = c # cs" using assms by (cases chunks) auto
  then show ?thesis
    by (simp add: handle_long_word_def chunks_size_def Let_def)
qed

lemma handle_long_word_first:
  assumes "width < length c"
  shows "chunks_size (snd (handle_long_word width (c # cs) [])) < chunks_size (c # cs)"
proof -
  define space_left where "space_left = (if width < 1 then 1 else width - cur_len [])"
  have sl: "0 < space_left" "space_left \<le> length c"
    using assms by (auto simp: space_left_def cur_len_def)
  define e where "e = (if length c > space_left then
                   (case rfind_hyphen c space_left of
                      Some hyphen \<Rightarrow>
                        if hyphen > 0 \<and> list_ex (\<lambda>x. \<not> is_hyphen x) (take hyphen c)
                        then hyphen + 1 else space_left
                    | None \<Rightarrow> space_left)
                 else space_left)"
  have "0 < e" using sl by (auto simp: e_def split: option.splits)
  moreover have "snd (handle_long_word width (c # cs) []) = drop e c # cs"
    unfolding handle_long_word_def Let_def e_def space_left_def
    by (simp only: snd_conv list.sel)
  ultimately show ?thesis
    using sl by (simp add: chunks_size_def)
qed

lemma next_line_size:
  assumes "chunks \<noteq> []"
  shows "chunks_size (snd (next_line width lines chunks)) < chunks_size chunks"
proof -
  obtain c cs where ch: "chunks = c # cs" using assms by (cases chunks) auto
  define chunks1 where
    "chunks1 = (if str_strip (hd chunks) = [] \<and> lines \<noteq> [] then tl chunks else chunks)"
  obtain cur_line1 chunks2 where tf: "take_fitting width [] chunks1 = (cur_line1, chunks2)"
    by (cases "take_fitting width [] chunks1")
  define r where "r = (if chunks2 \<noteq> [] \<and> length (hd chunks2) > width
              then handle_long_word width chunks2 cur_line1 else (cur_line1, chunks2))"
  have res: "snd (next_line width lines chunks) = snd r"
    by (simp add: next_line_def Let_def chunks1_def [symmetric] tf r_def [symmetric]
        split: prod.splits)
  have r_le: "chunks_size (snd r) \<le> chunks_size chunks2"
    using handle_long_word_size [of chunks2 width cur_line1] by (simp add: r_def)
  have c2_le: "chunks_size chunks2 \<le> chunks_size chunks1"
    using take_fitting_size [of width "[]" chunks1] tf by simp
  show ?thesis
  proof (cases "str_strip (hd chunks) = [] \<and> lines \<noteq> []")
    case True
    then have "chunks_size chunks1 < chunks_size chunks"
      by (simp add: chunks1_def ch chunks_size_def)
    with r_le c2_le res show ?thesis by simp
  next
    case False
    then have c1: "chunks1 = c # cs" by (simp add: chunks1_def ch)
    show ?thesis
    proof (cases "length c \<le> width")
      case True
      then have "chunks_size chunks2 < chunks_size chunks"
        using take_fitting_first [of c width cs] tf c1 ch by simp
      with r_le res show ?thesis by simp
    next
      case False
      then have w: "width < length c" by simp
      then have "cur_line1 = []" "chunks2 = c # cs"
        using take_fitting_stuck [of width c cs] tf c1 by simp_all
      then have "snd r = snd (handle_long_word width (c # cs) [])"
        using w by (simp add: r_def)
      then show ?thesis
        using handle_long_word_first [OF w, of cs] res ch by simp
    qed
  qed
qed

text \<open>
  The outer loop \<open>while chunks\<close>.  A pass that leaves \<open>cur_line\<close> empty adds no line; a
  pass under the line limit, or one that uses up the text, appends its line; the pass
  that reaches the limit with text left over truncates and leaves the loop.
\<close>

function wrap_loop :: "nat \<Rightarrow> nat option \<Rightarrow> string list \<Rightarrow> string list \<Rightarrow> string list" where
  "wrap_loop width max_lines lines chunks =
     (if chunks = [] then lines
      else
        let cur_line = fst (next_line width lines chunks);
            chunks' = snd (next_line width lines chunks)
        in if cur_line = [] then wrap_loop width max_lines lines chunks'
           else if max_lines = None \<or> length lines + 1 < the max_lines \<or>
                   ((chunks' = [] \<or> (length chunks' = 1 \<and> str_strip (hd chunks') = [])) \<and>
                    cur_len cur_line \<le> width)
             then wrap_loop width max_lines (lines @ [concat cur_line]) chunks'
           else truncate width lines cur_line)"
  by pat_completeness auto
termination
  by (relation "measure (\<lambda>(w, m, lines, chunks). chunks_size chunks)")
     (auto simp: next_line_size)

text \<open>
  \<open>_wrap_chunks\<close> raises \<open>ValueError\<close> for a width below one, and when a line limit is
  set and the stripped placeholder is wider than the width.
\<close>

definition wrap_chunks :: "nat \<Rightarrow> nat option \<Rightarrow> string list \<Rightarrow> error + string list" where
  "wrap_chunks width max_lines chunks =
     (if width \<le> 0 then Inl ValueError
      else if max_lines \<noteq> None \<and> length (str_lstrip placeholder) > width then Inl ValueError
      else Inr (wrap_loop width max_lines [] chunks))"

definition wrap :: "nat \<Rightarrow> nat option \<Rightarrow> string \<Rightarrow> error + string list" where
  "wrap width max_lines text = wrap_chunks width max_lines (split (munge_whitespace text))"

section \<open>The C4 module\<close>

subsection \<open>Label formatting\<close>

text \<open>\<open>lines += [""] * (3 - len(lines))\<close>: a negative count adds nothing.\<close>

definition pad_lines :: "string list \<Rightarrow> string list" where
  "pad_lines lines = lines @ replicate (3 - length lines) []"

definition format_description :: "string \<Rightarrow> error + string" where
  \<open>format_description description =
     (case wrap 40 (Some 3) description of
        Inl e \<Rightarrow> Inl e
      | Inr wrapped \<Rightarrow>
          (let lines = map html_escape wrapped;
               lines = pad_lines lines
           in Inr (str_join ''<br/>'' lines)))\<close>

definition format_node_label :: "string \<Rightarrow> string \<Rightarrow> string \<Rightarrow> error + string" where
  \<open>format_node_label name key description =
     (let title = ''<font point-size="12"><b>'' @ html_escape name @ ''</b></font><br/>'';
          subtitle = (if key \<noteq> [] then ''<font point-size="9">['' @ html_escape key @ '']<br/></font>''
                      else [])
      in if description \<noteq> [] then
           (case format_description description of
              Inl e \<Rightarrow> Inl e
            | Inr body \<Rightarrow>
                Inr (''<'' @ title @ subtitle @
                     (''<br/><font point-size="10">'' @ body @ ''</font>'') @ ''>''))
         else Inr (''<'' @ title @ subtitle @ [] @ ''>''))\<close>

definition format_edge_label :: "string \<Rightarrow> error + string" where
  \<open>format_edge_label description =
     (case wrap 24 (Some 3) description of
        Inl e \<Rightarrow> Inl e
      | Inr wrapped \<Rightarrow>
          (let lines = map html_escape wrapped;
               text = str_join ''<br/>'' lines
           in Inr (''<<font point-size="10">'' @ text @ ''</font>>'')))\<close>

subsection \<open>Descriptors\<close>

text \<open>
  Modelled from the spec: the constructors \<open>Node\<close>, \<open>Edge\<close> and \<open>Cluster\<close> of the
  \<open>diagrams\<close> package, which the module imports and which are not among its sources.
  The spec treats what they return as an opaque descriptor made of the attribute bundle
  it was given; the model keeps exactly the arguments of the call: the keyword
  attributes, and for a cluster its first argument too.  Attribute values are strings,
  as all computed ones are.
\<close>

type_synonym attributes = "string \<rightharpoonup> string"

datatype descriptor =
    Node (attrs: attributes)
  | Edge (attrs: attributes)
  | Cluster (ident: string) (attrs: attributes)

text \<open>The attribute of a builder's result, \<open>None\<close> when it is absent.\<close>

definition attr :: "error + descriptor \<Rightarrow> string \<Rightarrow> string option" where
  "attr r k = (case r of Inl e \<Rightarrow> None | Inr d \<Rightarrow> attrs d k)"

subsection \<open>Builders\<close>

text \<open>
  \<open>kwargs\<close> is the dictionary of the extra keyword arguments; \<open>d.update(kwargs)\<close> is
  \<open>d ++ kwargs\<close>.  Python binds a keyword that names a parameter to that parameter, so
  \<open>kwargs\<close> never holds \<open>name\<close>, \<open>technology\<close>, \<open>description\<close> or \<open>external\<close>, nor
  \<open>label\<close> in \<open>Relationship\<close>.
\<close>

definition Container :: "string \<Rightarrow> string \<Rightarrow> string \<Rightarrow> attributes \<Rightarrow> error + descriptor" where
  \<open>Container name technology description kwargs =
     (let key = (if technology \<noteq> [] then ''Container: '' @ technology else ''Container'')
      in case format_node_label name key description of
           Inl e \<Rightarrow> Inl e
         | Inr label \<Rightarrow>
             (let node_attributes =
                    [''label'' \<mapsto> label,
                     ''labelloc'' \<mapsto> ''c'',
                     ''shape'' \<mapsto> ''rect'',
                     ''width'' \<mapsto> ''2.6'',
                     ''height'' \<mapsto> ''1.6'',
                     ''fixedsize'' \<mapsto> ''true'',
                     ''style'' \<mapsto> ''filled'',
                     ''fillcolor'' \<mapsto> ''dodgerblue3'',
                     ''fontcolor'' \<mapsto> ''white'']
              in Inr (Node (node_attributes ++ kwargs))))\<close>

definition Database :: "string \<Rightarrow> string \<Rightarrow> string \<Rightarrow> attributes \<Rightarrow> error + descriptor" where
  \<open>Database name technology description kwargs =
     (let key = (if technology \<noteq> [] then ''Database: '' @ technology else ''Database'')
      in case format_node_label name key description of
           Inl e \<Rightarrow> Inl e
         | Inr label \<Rightarrow>
             (let node_attributes =
                    [''label'' \<mapsto> label,
                     ''shape'' \<mapsto> ''cylinder'',
                     ''width'' \<mapsto> ''2.6'',
                     ''height'' \<mapsto> ''1.6'',
                     ''fixedsize'' \<mapsto> ''true'',
                     ''style'' \<mapsto> ''filled'',
                     ''fillcolor'' \<mapsto> ''dodgerblue3'',
                     ''fontcolor'' \<mapsto> ''white'']
              in Inr (Node (node_attributes ++ kwargs))))\<close>

definition System :: "string \<Rightarrow> string \<Rightarrow> bool \<Rightarrow> attributes \<Rightarrow> error + descriptor" where
  \<open>System name description external kwargs =
     (let key = (if external then ''External System'' else ''System'')
      in case format_node_label name key description of
           Inl e \<Rightarrow> Inl e
         | Inr label \<Rightarrow>
             (let node_attributes =
                    [''label'' \<mapsto> label,
                     ''labelloc'' \<mapsto> ''c'',
                     ''shape'' \<mapsto> ''rect'',
                     ''width'' \<mapsto> ''2.6'',
                     ''height'' \<mapsto> ''1.6'',
                     ''fixedsize'' \<mapsto> ''true'',
                     ''style'' \<mapsto> ''filled'',
                     ''fillcolor'' \<mapsto> (if external then ''gray60'' else ''dodgerblue4''),
                     ''fontcolor'' \<mapsto> ''white''];
                  node_attributes =
                    (if description = []
                     then node_attributes ++ [''width'' \<mapsto> ''2'', ''height'' \<mapsto> ''1'']
                     else node_attributes)
              in Inr (Node (node_attributes ++ kwargs))))\<close>

definition Person :: "string \<Rightarrow> string \<Rightarrow> bool \<Rightarrow> attributes \<Rightarrow> error + descriptor" where
  \<open>Person name description external kwargs =
     (let key = (if external then ''External Person'' else ''Person'')
      in case format_node_label name key description of
           Inl e \<Rightarrow> Inl e
         | Inr label \<Rightarrow>
             (let node_attributes =
                    [''label'' \<mapsto> label,
                     ''labelloc'' \<mapsto> ''c'',
                     ''shape'' \<mapsto> ''rect'',
                     ''width'' \<mapsto> ''2.6'',
                     ''height'' \<mapsto> ''1.6'',
                     ''fixedsize'' \<mapsto> ''true'',
                     ''style'' \<mapsto> ''rounded,filled'',
                     ''fillcolor'' \<mapsto> (if external then ''gray60'' else ''dodgerblue4''),
                     ''fontcolor'' \<mapsto> ''white''];
                  node_attributes =
                    (if description = []
                     then node_attributes ++ [''width'' \<mapsto> ''2'', ''height'' \<mapsto> ''1'']
                     else node_attributes)
              in Inr (Node (node_attributes ++ kwargs))))\<close>

definition SystemBoundary :: "string \<Rightarrow> attributes \<Rightarrow> descriptor" where
  \<open>SystemBoundary name kwargs =
     (let graph_attributes =
            [''label'' \<mapsto> html_escape name,
             ''bgcolor'' \<mapsto> ''white'',
             ''margin'' \<mapsto> ''16'',
             ''style'' \<mapsto> ''dashed'']
      in Cluster name (graph_attributes ++ kwargs))\<close>

definition Relationship :: "string \<Rightarrow> attributes \<Rightarrow> error + descriptor" where
  \<open>Relationship label kwargs =
     (let edge_attribtues = [''style'' \<mapsto> ''dashed'', ''color'' \<mapsto> ''gray60'']
      in if label \<noteq> [] then
           (case format_edge_label label of
              Inl e \<Rightarrow> Inl e
            | Inr l \<Rightarrow> Inr (Edge ((edge_attribtues ++ [''label'' \<mapsto> l]) ++ kwargs)))
         else Inr (Edge (edge_attribtues ++ kwargs)))\<close>

subsection \<open>Observing a label\<close>

text \<open>
  The rendered lines of a piece of label markup are the pieces between its line breaks,
  \<open>markup.split("<br/>")\<close>.
\<close>

fun rendered_lines :: "string \<Rightarrow> string list" where
  \<open>rendered_lines [] = [[]]\<close>
| \<open>rendered_lines (c # cs) =
     (if prefix ''<br/>'' (c # cs) then [] # rendered_lines (drop 4 cs)
      else (case rendered_lines cs of l # ls \<Rightarrow> (c # l) # ls | [] \<Rightarrow> [[c]]))\<close>

text \<open>
  The raw markup characters of a string, and the test that every ampersand of a string
  begins one of the five entities that \<open>html.escape\<close> writes.
\<close>

definition is_markup_char :: "char \<Rightarrow> bool" where
  \<open>is_markup_char c = (c = CHR ''<'' \<or> c = CHR ''>'' \<or> c = CHR 0x22 \<or> c = CHR 0x27)\<close>

definition raw_markup :: "string \<Rightarrow> string" where
  "raw_markup s = filter is_markup_char s"

definition entities :: "string list" where
  \<open>entities = [''amp;'', ''lt;'', ''gt;'', ''quot;'', ''#x27;'']\<close>

fun amp_escaped :: "string \<Rightarrow> bool" where
  \<open>amp_escaped [] = True\<close>
| \<open>amp_escaped (c # cs) =
     (if c = CHR ''&'' then list_ex (\<lambda>e. prefix e cs) entities \<and> amp_escaped cs
      else amp_escaped cs)\<close>

text \<open>What \<open>html.escape\<close> writes for one character.\<close>

definition escape_char :: "char \<Rightarrow> string" where
  \<open>escape_char c =
     (if c = CHR ''&'' then ''&amp;''
      else if c = CHR ''<'' then ''&lt;''
      else if c = CHR ''>'' then ''&gt;''
      else if c = CHR 0x22 then ''&quot;''
      else if c = CHR 0x27 then ''&#x27;''
      else [c])\<close>

section \<open>Properties of the escaping and of the rendered lines\<close>

lemma str_replace_append:
  "str_replace c r (xs @ ys) = str_replace c r xs @ str_replace c r ys"
  by (simp add: str_replace_def)

lemma str_replace_Nil: "str_replace c r [] = []"
  by (simp add: str_replace_def)

lemma str_replace_single: "str_replace c r [x] = (if x = c then r else [x])"
  by (simp add: str_replace_def)

lemma html_escape_Nil: "html_escape [] = []"
  by (simp add: html_escape_def str_replace_Nil)

lemma html_escape_single: "html_escape [c] = escape_char c"
  by (simp add: html_escape_def escape_char_def str_replace_def)

lemma html_escape_append: "html_escape (xs @ ys) = html_escape xs @ html_escape ys"
  by (simp add: html_escape_def str_replace_append)

lemma html_escape_Cons: "html_escape (c # s) = escape_char c @ html_escape s"
  using html_escape_append [of "[c]" s] by (simp add: html_escape_single)

lemma html_escape_concat: "html_escape s = concat (map escape_char s)"
  by (induction s) (simp_all add: html_escape_Nil html_escape_Cons)

lemma raw_markup_append: "raw_markup (xs @ ys) = raw_markup xs @ raw_markup ys"
  by (simp add: raw_markup_def)

lemma raw_markup_escape_char: "raw_markup (escape_char c) = []"
  by (simp add: raw_markup_def escape_char_def is_markup_char_def)

lemma raw_markup_html_escape: "raw_markup (html_escape s) = []"
  by (induction s) (simp_all add: html_escape_Nil html_escape_Cons raw_markup_append raw_markup_escape_char, simp add: raw_markup_def)

lemma amp_escaped_append:
  "amp_escaped xs \<Longrightarrow> amp_escaped ys \<Longrightarrow> amp_escaped (xs @ ys)"
proof (induction xs)
  case Nil
  then show ?case by simp
next
  case (Cons c xs)
  then show ?case
    by (auto simp: list_ex_iff split: if_splits intro: prefix_prefix)
qed

lemma amp_escaped_escape_char: "amp_escaped (escape_char c)"
  by (simp add: escape_char_def entities_def)

lemma amp_escaped_html_escape: "amp_escaped (html_escape s)"
  by (induction s)
     (simp_all add: html_escape_Nil html_escape_Cons amp_escaped_append amp_escaped_escape_char)

lemma lt_notin_escape_char: "CHR ''<'' \<notin> set (escape_char c)"
  by (simp add: escape_char_def)

lemma lt_notin_html_escape: "CHR ''<'' \<notin> set (html_escape s)"
  by (induction s) (simp_all add: html_escape_Nil html_escape_Cons lt_notin_escape_char)

lemma rendered_lines_nonempty: "rendered_lines s \<noteq> []"
  by (induction s rule: rendered_lines.induct) (auto split: list.splits)

lemma rendered_lines_no_break:
  "CHR ''<'' \<notin> set l \<Longrightarrow> rendered_lines l = [l]"
  by (induction l) (auto split: list.splits)

lemma rendered_lines_break:
  \<open>CHR ''<'' \<notin> set l \<Longrightarrow> rendered_lines (l @ ''<br/>'' @ rest) = l # rendered_lines rest\<close>
  by (induction l) (auto split: list.splits simp: rendered_lines_nonempty)

lemma str_join_Cons:
  "xs \<noteq> [] \<Longrightarrow> str_join sep (x # xs) = x @ sep @ str_join sep xs"
  by (cases xs) simp_all

lemma rendered_lines_join:
  \<open>ls \<noteq> [] \<Longrightarrow> \<forall>l \<in> set ls. CHR ''<'' \<notin> set l \<Longrightarrow>
   rendered_lines (str_join ''<br/>'' ls) = ls\<close>
proof (induction ls rule: list_nonempty_induct)
  case (single x)
  then show ?case by (simp add: rendered_lines_no_break)
next
  case (cons x xs)
  then show ?case
    using rendered_lines_break [of x "str_join ''<br/>'' xs"]
    by (simp add: str_join_Cons del: rendered_lines.simps)
qed

section \<open>Properties of the wrapping loop\<close>

lemma wrap_loop_Nil: "wrap_loop w ml lines [] = lines"
  by simp

lemma cur_len_Nil: "cur_len [] = 0"
  by (simp add: cur_len_def)

lemma cur_len_append: "cur_len (xs @ ys) = cur_len xs + cur_len ys"
  by (simp add: cur_len_def)

lemma cur_len_concat: "length (concat xs) = cur_len xs"
  by (simp add: cur_len_def length_concat)

lemma cur_len_butlast: "cur_len (butlast xs) \<le> cur_len xs"
  by (induction xs) (simp_all add: cur_len_def)

lemma next_line_ws:
  assumes "lines \<noteq> []" "str_strip c = []"
  shows "next_line w lines [c] = ([], [])"
  using assms by (simp add: next_line_def)

lemma wrap_loop_done:
  assumes "lines \<noteq> []"
    and "chunks = [] \<or> (length chunks = 1 \<and> str_strip (hd chunks) = [])"
  shows "wrap_loop w ml lines chunks = lines"
proof (cases chunks)
  case Nil
  then show ?thesis by simp
next
  case (Cons c cs)
  with assms have "chunks = [c]" "str_strip c = []" by auto
  then show ?thesis
    using next_line_ws [OF assms(1), of c w] by (subst wrap_loop.simps) simp
qed

lemma take_fitting_len:
  "cur_len cur \<le> w \<Longrightarrow> cur_len (fst (take_fitting w cur chunks)) \<le> w"
  by (induction w cur chunks rule: take_fitting.induct) (auto simp: cur_len_append cur_len_def)

lemma handle_long_word_len:
  assumes "0 < w" "cur_len cur \<le> w"
  shows "cur_len (fst (handle_long_word w chunks cur)) \<le> w"
proof -
  have "h + 1 \<le> w - cur_len cur" if "rfind_hyphen (hd chunks) (w - cur_len cur) = Some h" for h
    using rfind_hyphen_less [OF that] by simp
  then show ?thesis
    using assms
    by (auto simp: handle_long_word_def Let_def cur_len_append cur_len_def split: option.splits)
qed

lemma next_line_len:
  assumes "0 < w"
  shows "cur_len (fst (next_line w lines chunks)) \<le> w"
proof -
  define chunks1 where
    "chunks1 = (if str_strip (hd chunks) = [] \<and> lines \<noteq> [] then tl chunks else chunks)"
  obtain cur_line1 chunks2 where tf: "take_fitting w [] chunks1 = (cur_line1, chunks2)"
    by (cases "take_fitting w [] chunks1")
  have l1: "cur_len cur_line1 \<le> w"
    using take_fitting_len [of "[]" w chunks1] tf by (simp add: cur_len_Nil)
  define r where "r = (if chunks2 \<noteq> [] \<and> length (hd chunks2) > w
              then handle_long_word w chunks2 cur_line1 else (cur_line1, chunks2))"
  have l2: "cur_len (fst r) \<le> w"
    using l1 handle_long_word_len [OF assms l1, of chunks2] by (simp add: r_def)
  have "fst (next_line w lines chunks) =
          (if fst r \<noteq> [] \<and> str_strip (last (fst r)) = [] then butlast (fst r) else fst r)"
    by (simp add: next_line_def Let_def chunks1_def [symmetric] tf r_def [symmetric]
        split: prod.splits)
  then show ?thesis
    using l2 cur_len_butlast [of "fst r"] by (auto simp del: butlast.simps)
qed

declare wrap_loop.simps [simp del]

declare drop_to_fit.simps [simp del]

lemma wrap_loop_step_empty:
  assumes "chunks \<noteq> []" and "fst (next_line w lines chunks) = []"
  shows "wrap_loop w ml lines chunks = wrap_loop w ml lines (snd (next_line w lines chunks))"
  by (subst wrap_loop.simps) (simp only: Let_def assms if_False if_True simp_thms)

lemma wrap_loop_step_append:
  assumes "chunks \<noteq> []" and "fst (next_line w lines chunks) \<noteq> []"
    and "ml = None \<or> length lines + 1 < the ml \<or>
         ((snd (next_line w lines chunks) = [] \<or>
           (length (snd (next_line w lines chunks)) = 1 \<and>
            str_strip (hd (snd (next_line w lines chunks))) = [])) \<and>
          cur_len (fst (next_line w lines chunks)) \<le> w)"
  shows "wrap_loop w ml lines chunks =
         wrap_loop w ml (lines @ [concat (fst (next_line w lines chunks))])
           (snd (next_line w lines chunks))"
  by (subst wrap_loop.simps) (simp only: Let_def assms if_False if_True simp_thms)

lemma wrap_loop_step_truncate:
  assumes "chunks \<noteq> []" and "fst (next_line w lines chunks) \<noteq> []"
    and "\<not> (ml = None \<or> length lines + 1 < the ml \<or>
         ((snd (next_line w lines chunks) = [] \<or>
           (length (snd (next_line w lines chunks)) = 1 \<and>
            str_strip (hd (snd (next_line w lines chunks))) = [])) \<and>
          cur_len (fst (next_line w lines chunks)) \<le> w))"
  shows "wrap_loop w ml lines chunks = truncate w lines (fst (next_line w lines chunks))"
  by (subst wrap_loop.simps) (simp only: Let_def assms if_False if_True simp_thms)

lemma drop_to_fit_Some:
  "drop_to_fit w cl = Some l \<Longrightarrow>
   \<exists>cl'. prefix cl' cl \<and> l = cl' @ [placeholder] \<and> cur_len cl' + length placeholder \<le> w"
proof (induction w cl rule: drop_to_fit.induct)
  case (1 w cl)
  show ?case
  proof (cases "cl = []")
    case True
    with "1.prems" show ?thesis by (subst (asm) drop_to_fit.simps) simp
  next
    case ne: False
    show ?thesis
    proof (cases "str_strip (last cl) \<noteq> [] \<and> cur_len cl + length placeholder \<le> w")
      case True
      with ne "1.prems" have "l = cl @ [placeholder]"
        by (subst (asm) drop_to_fit.simps) simp
      with True show ?thesis by auto
    next
      case False
      with ne "1.prems" have "drop_to_fit w (butlast cl) = Some l"
        by (subst (asm) drop_to_fit.simps) (simp split: if_splits)
      from "1.IH" [OF ne False this] obtain cl' where
        "prefix cl' (butlast cl)" "l = cl' @ [placeholder]" "cur_len cl' + length placeholder \<le> w"
        by blast
      moreover have "prefix (butlast cl) cl" by (rule prefixeq_butlast)
      ultimately have "prefix cl' cl" by (meson prefix_order.trans)
      with \<open>l = cl' @ [placeholder]\<close> \<open>cur_len cl' + length placeholder \<le> w\<close>
      show ?thesis by blast
    qed
  qed
qed

lemma truncate_length:
  "length (truncate w lines cl) = Suc (length lines) \<or>
   (lines \<noteq> [] \<and> length (truncate w lines cl) = length lines)"
  by (auto simp: truncate_def split: option.splits)

lemma truncate_width:
  assumes "\<forall>l \<in> set lines. length l \<le> w" and "length (str_lstrip placeholder) \<le> w"
  shows "\<forall>l \<in> set (truncate w lines cl). length l \<le> w"
proof (cases "drop_to_fit w cl")
  case None
  have bl: "\<forall>l \<in> set (butlast lines). length l \<le> w"
    using assms(1) by (meson in_set_butlastD)
  show ?thesis
  proof (cases "lines \<noteq> [] \<and> length (str_rstrip (last lines)) + length placeholder \<le> w")
    case True
    then have "truncate w lines cl = butlast lines @ [str_rstrip (last lines) @ placeholder]"
      using None by (simp add: truncate_def)
    with True bl show ?thesis by simp
  next
    case False
    with None have "truncate w lines cl = lines @ [str_lstrip placeholder]"
      by (auto simp: truncate_def)
    with assms show ?thesis by simp
  qed
next
  case (Some line)
  from drop_to_fit_Some [OF this] obtain cl' where
    "line = cl' @ [placeholder]" "cur_len cl' + length placeholder \<le> w" by blast
  then have "length (concat line) \<le> w" by (simp add: cur_len_concat)
  moreover have "truncate w lines cl = lines @ [concat line]"
    using Some by (simp add: truncate_def)
  ultimately show ?thesis using assms(1) by simp
qed

lemma wrap_loop_length:
  "length lines < m \<Longrightarrow> length (wrap_loop w (Some m) lines chunks) \<le> m"
proof (induction w "Some m" lines chunks rule: wrap_loop.induct)
  case (1 width lines chunks)
  let ?cl = "fst (next_line width lines chunks)"
  let ?ch = "snd (next_line width lines chunks)"
  let ?fits = "Some m = None \<or> length lines + 1 < the (Some m) \<or>
         ((?ch = [] \<or> (length ?ch = 1 \<and> str_strip (hd ?ch) = [])) \<and> cur_len ?cl \<le> width)"
  show ?case
  proof (cases "chunks = []")
    case True
    with "1.prems" show ?thesis by (simp add: wrap_loop_Nil)
  next
    case ne: False
    show ?thesis
    proof (cases "?cl = []")
      case True
      have "length (wrap_loop width (Some m) lines ?ch) \<le> m"
        using "1.hyps"(1) [OF ne refl refl True "1.prems"] .
      then show ?thesis
        by (simp only: wrap_loop_step_empty [OF ne True])
    next
      case cl: False
      show ?thesis
      proof (cases ?fits)
        case True
        note eq = wrap_loop_step_append [OF ne cl True]
        show ?thesis
        proof (cases "length lines + 1 < m")
          case lt: True
          then have "length (lines @ [concat ?cl]) < m" by simp
          from "1.hyps"(2) [OF ne refl refl cl True this]
          show ?thesis by (simp only: eq)
        next
          case False
          with True have "?ch = [] \<or> (length ?ch = 1 \<and> str_strip (hd ?ch) = [])"
            by simp
          then have "wrap_loop width (Some m) (lines @ [concat ?cl]) ?ch = lines @ [concat ?cl]"
            by (intro wrap_loop_done) simp_all
          with "1.prems" show ?thesis by (simp only: eq) simp
        qed
      next
        case False
        note eq = wrap_loop_step_truncate [OF ne cl False]
        show ?thesis
          using truncate_length [of width lines ?cl] "1.prems" by (simp only: eq) auto
      qed
    qed
  qed
qed

lemma wrap_loop_width:
  "\<forall>l \<in> set lines. length l \<le> w \<Longrightarrow> 0 < w \<Longrightarrow>
   ml \<noteq> None \<longrightarrow> length (str_lstrip placeholder) \<le> w \<Longrightarrow>
   \<forall>l \<in> set (wrap_loop w ml lines chunks). length l \<le> w"
proof (induction w ml lines chunks rule: wrap_loop.induct)
  case (1 width max_lines lines chunks)
  let ?cl = "fst (next_line width lines chunks)"
  let ?ch = "snd (next_line width lines chunks)"
  let ?fits = "max_lines = None \<or> length lines + 1 < the max_lines \<or>
         ((?ch = [] \<or> (length ?ch = 1 \<and> str_strip (hd ?ch) = [])) \<and> cur_len ?cl \<le> width)"
  have len: "length (concat ?cl) \<le> width"
    using next_line_len [OF "1.prems"(2), of lines chunks] by (simp add: cur_len_concat)
  show ?case
  proof (cases "chunks = []")
    case True
    with "1.prems" show ?thesis by (simp add: wrap_loop_Nil)
  next
    case ne: False
    show ?thesis
    proof (cases "?cl = []")
      case True
      show ?thesis
        using "1.IH"(1) [OF ne refl refl True "1.prems"]
        by (simp only: wrap_loop_step_empty [OF ne True])
    next
      case cl: False
      show ?thesis
      proof (cases ?fits)
        case True
        have "\<forall>l \<in> set (lines @ [concat ?cl]). length l \<le> width"
          using "1.prems"(1) len by simp
        from "1.IH"(2) [OF ne refl refl cl True this "1.prems"(2,3)]
        show ?thesis by (simp only: wrap_loop_step_append [OF ne cl True])
      next
        case False
        then have ml: "max_lines \<noteq> None" by auto
        with "1.prems"(3) have "length (str_lstrip placeholder) \<le> width" by simp
        from truncate_width [OF "1.prems"(1) this, of ?cl]
        show ?thesis
          by (simp only: wrap_loop_step_truncate [OF ne cl False])
      qed
    qed
  qed
qed

lemma wrap_loop_prefix: "prefix lines (wrap_loop w None lines chunks)"
proof (induction w "None :: nat option" lines chunks rule: wrap_loop.induct)
  case (1 width lines chunks)
  let ?cl = "fst (next_line width lines chunks)"
  let ?ch = "snd (next_line width lines chunks)"
  show ?case
  proof (cases "chunks = []")
    case True
    then show ?thesis by (simp add: wrap_loop_Nil)
  next
    case ne: False
    show ?thesis
    proof (cases "?cl = []")
      case True
      from "1.hyps"(1) [OF ne refl refl True]
      show ?thesis by (simp only: wrap_loop_step_empty [OF ne True])
    next
      case cl: False
      have "prefix (lines @ [concat ?cl]) (wrap_loop width None (lines @ [concat ?cl]) ?ch)"
        using "1.hyps"(2) [OF ne refl refl cl] by simp
      then have "prefix lines (wrap_loop width None (lines @ [concat ?cl]) ?ch)"
        by (rule append_prefixD)
      then show ?thesis
        by (simp only: wrap_loop_step_append [OF ne cl disjI1 [OF refl]])
    qed
  qed
qed

lemma str_rstrip_prefix: "prefix (str_rstrip s) s"
proof -
  have "rev s = takeWhile is_space (rev s) @ dropWhile is_space (rev s)" by simp
  then have "s = rev (dropWhile is_space (rev s)) @ rev (takeWhile is_space (rev s))"
    by (metis rev_append rev_rev_ident)
  then show ?thesis
    unfolding str_rstrip_def by (metis prefixI)
qed

lemma prefix_concat: "prefix xs ys \<Longrightarrow> prefix (concat xs) (concat ys)"
  by (auto simp: prefix_def)

text \<open>
  What the truncation writes, against the lines \<open>U\<close> of the untruncated wrapping, which
  go on from \<open>lines\<close> with the full current line.
\<close>

lemma truncate_cut:
  fixes w :: nat
  assumes "prefix (lines @ [concat cl]) U"
  defines "R \<equiv> truncate w lines cl"
  shows "R \<noteq> [] \<and> (length R = Suc (length lines) \<or> (lines \<noteq> [] \<and> length R = length lines)) \<and>
         butlast R = take (length R - 1) U \<and>
         ((\<exists>p. prefix p (U ! (length R - 1)) \<and> last R = p @ placeholder) \<or>
          last R = str_lstrip placeholder)"
proof -
  from assms(1) obtain rest where U: "U = lines @ concat cl # rest"
    by (auto simp: prefix_def)
  show ?thesis
  proof (cases "drop_to_fit w cl")
    case (Some line)
    from drop_to_fit_Some [OF this] obtain cl' where
      cl': "prefix cl' cl" "line = cl' @ [placeholder]" by blast
    have R: "R = lines @ [concat cl' @ placeholder]"
      using Some cl' by (simp add: R_def truncate_def)
    have "prefix (concat cl') (U ! (length R - 1))"
      using prefix_concat [OF cl'(1)] by (simp add: R U)
    then show ?thesis by (auto simp: R U)
  next
    case None
    show ?thesis
    proof (cases "lines \<noteq> [] \<and> length (str_rstrip (last lines)) + length placeholder \<le> w")
      case True
      then have R: "R = butlast lines @ [str_rstrip (last lines) @ placeholder]"
        using None by (simp add: R_def truncate_def)
      from True have ne: "lines \<noteq> []" by simp
      then have "U ! (length lines - 1) = last lines"
        by (simp add: U nth_append last_conv_nth)
      moreover have "take (length lines - 1) U = butlast lines"
        using ne by (simp add: U butlast_conv_take)
      ultimately show ?thesis
        using ne str_rstrip_prefix [of "last lines"] by (auto simp: R)
    next
      case False
      with None have R: "R = lines @ [str_lstrip placeholder]"
        by (auto simp: R_def truncate_def)
      then show ?thesis by (simp add: U)
    qed
  qed
qed

lemma wrap_loop_truncated:
  "length lines < m \<Longrightarrow> m < length (wrap_loop w None lines chunks) \<Longrightarrow>
   wrap_loop w (Some m) lines chunks \<noteq> [] \<and>
   (length (wrap_loop w (Some m) lines chunks) = m \<or>
    Suc (length (wrap_loop w (Some m) lines chunks)) = m) \<and>
   butlast (wrap_loop w (Some m) lines chunks) =
     take (length (wrap_loop w (Some m) lines chunks) - 1) (wrap_loop w None lines chunks) \<and>
   ((\<exists>p. prefix p (wrap_loop w None lines chunks ! (length (wrap_loop w (Some m) lines chunks) - 1)) \<and>
         last (wrap_loop w (Some m) lines chunks) = p @ placeholder) \<or>
    last (wrap_loop w (Some m) lines chunks) = str_lstrip placeholder)"
proof (induction w "Some m" lines chunks rule: wrap_loop.induct)
  case (1 width lines chunks)
  let ?cl = "fst (next_line width lines chunks)"
  let ?ch = "snd (next_line width lines chunks)"
  let ?fits = "Some m = None \<or> length lines + 1 < the (Some m) \<or>
         ((?ch = [] \<or> (length ?ch = 1 \<and> str_strip (hd ?ch) = [])) \<and> cur_len ?cl \<le> width)"
  show ?case
  proof (cases "chunks = []")
    case True
    with "1.prems" show ?thesis by (simp add: wrap_loop_Nil)
  next
    case ne: False
    show ?thesis
    proof (cases "?cl = []")
      case True
      note eqU = wrap_loop_step_empty [OF ne True, of None]
      note eqR = wrap_loop_step_empty [OF ne True, of "Some m"]
      have "m < length (wrap_loop width None lines ?ch)"
        using "1.prems"(2) by (simp only: eqU)
      from "1.hyps"(1) [OF ne refl refl True "1.prems"(1) this]
      show ?thesis unfolding eqU eqR .
    next
      case cl: False
      note eqU = wrap_loop_step_append [OF ne cl disjI1 [OF refl]]
      show ?thesis
      proof (cases ?fits)
        case True
        note eqR = wrap_loop_step_append [OF ne cl True]
        show ?thesis
        proof (cases "length lines + 1 < m")
          case lt: True
          then have l: "length (lines @ [concat ?cl]) < m" by simp
          have "m < length (wrap_loop width None (lines @ [concat ?cl]) ?ch)"
            using "1.prems"(2) by (simp only: eqU)
          from "1.hyps"(2) [OF ne refl refl cl True l this]
          show ?thesis unfolding eqU eqR .
        next
          case False
          with True have "?ch = [] \<or> (length ?ch = 1 \<and> str_strip (hd ?ch) = [])"
            by simp
          then have "wrap_loop width None (lines @ [concat ?cl]) ?ch = lines @ [concat ?cl]"
            by (intro wrap_loop_done) simp_all
          then have "length (wrap_loop width None lines chunks) = Suc (length lines)"
            by (simp only: eqU) simp
          with "1.prems" show ?thesis by simp
        qed
      next
        case False
        note eqR = wrap_loop_step_truncate [OF ne cl False]
        from False "1.prems"(1) have m: "m = Suc (length lines)" by simp
        have "prefix (lines @ [concat ?cl]) (wrap_loop width None lines chunks)"
          using wrap_loop_prefix [of "lines @ [concat ?cl]" width ?ch] by (simp only: eqU)
        from truncate_cut [OF this, of width]
        show ?thesis
          unfolding eqR using m by auto
      qed
    qed
  qed
qed

section \<open>Properties of the formatters\<close>

lemma lstrip_placeholder: \<open>str_lstrip placeholder = ''[...]''\<close>
  by (simp add: str_lstrip_def placeholder_def is_space_def)

lemma wrap_Inr:
  assumes "0 < w" and "5 \<le> w"
  shows "wrap w ml text = Inr (wrap_loop w ml [] (split (munge_whitespace text)))"
  using assms by (simp add: wrap_def wrap_chunks_def lstrip_placeholder)

lemma wrap_three:
  assumes "5 \<le> w"
  shows "\<exists>ls. wrap w (Some 3) text = Inr ls \<and> length ls \<le> 3 \<and> (\<forall>l \<in> set ls. length l \<le> w)"
proof -
  let ?ls = "wrap_loop w (Some 3) [] (split (munge_whitespace text))"
  have "wrap w (Some 3) text = Inr ?ls"
    using assms by (intro wrap_Inr) simp_all
  moreover have "length ?ls \<le> 3"
    by (rule wrap_loop_length) simp
  moreover have "\<forall>l \<in> set ?ls. length l \<le> w"
    using assms by (intro wrap_loop_width) (simp_all add: lstrip_placeholder)
  ultimately show ?thesis by blast
qed

lemma length_pad_lines: "length ls \<le> 3 \<Longrightarrow> length (pad_lines ls) = 3"
  by (simp add: pad_lines_def)

lemma pad_lines_three: "length ls = 3 \<Longrightarrow> pad_lines ls = ls"
  by (simp add: pad_lines_def)

lemma set_pad_lines: "set (pad_lines ls) \<subseteq> insert [] (set ls)"
  by (auto simp: pad_lines_def)

lemma pad_lines_no_lt:
  "\<forall>l \<in> set (pad_lines (map html_escape ls)). CHR ''<'' \<notin> set l"
  using set_pad_lines [of "map html_escape ls"] lt_notin_html_escape by fastforce

text \<open>
  The description formatter never raises: it returns the escaped wrapped lines, padded
  to three and joined by line breaks, and these three are its rendered lines.
\<close>

lemma format_description_lines:
  \<open>\<exists>ls. wrap 40 (Some 3) description = Inr ls \<and> length ls \<le> 3 \<and>
        (\<forall>l \<in> set ls. length l \<le> 40) \<and>
        format_description description =
          Inr (str_join ''<br/>'' (pad_lines (map html_escape ls))) \<and>
        rendered_lines (str_join ''<br/>'' (pad_lines (map html_escape ls))) =
          pad_lines (map html_escape ls)\<close>
proof -
  from wrap_three [of 40 description] obtain ls where
    ls: "wrap 40 (Some 3) description = Inr ls" "length ls \<le> 3" "\<forall>l \<in> set ls. length l \<le> 40"
    by auto
  have "length (pad_lines (map html_escape ls)) = 3"
    using ls(2) by (simp add: length_pad_lines)
  then have "pad_lines (map html_escape ls) \<noteq> []" by auto
  then have "rendered_lines (str_join ''<br/>'' (pad_lines (map html_escape ls))) =
          pad_lines (map html_escape ls)"
    using pad_lines_no_lt by (rule rendered_lines_join)
  moreover have "format_description description =
          Inr (str_join ''<br/>'' (pad_lines (map html_escape ls)))"
    using ls(1) by (simp add: format_description_def)
  ultimately show ?thesis using ls by blast
qed

lemma format_description_three:
  "\<exists>body. format_description description = Inr body \<and> length (rendered_lines body) = 3"
proof -
  from format_description_lines [of description] obtain ls where
    "length ls \<le> 3"
    "format_description description = Inr (str_join ''<br/>'' (pad_lines (map html_escape ls)))"
    "rendered_lines (str_join ''<br/>'' (pad_lines (map html_escape ls))) =
       pad_lines (map html_escape ls)"
    by blast
  then show ?thesis by (simp add: length_pad_lines)
qed

lemma format_node_label_span:
  assumes "format_description description = Inr body" and "description \<noteq> []"
  shows \<open>\<exists>pre. format_node_label name key description =
           Inr (pre @ ''<br/><font point-size="10">'' @ body @ ''</font>>'')\<close>
proof -
  let ?title = \<open>''<font point-size="12"><b>'' @ html_escape name @ ''</b></font><br/>''\<close>
  let ?subtitle = \<open>if key \<noteq> [] then ''<font point-size="9">['' @ html_escape key @ '']<br/></font>''
                      else []\<close>
  have \<open>format_node_label name key description =
          Inr ((''<'' @ ?title @ ?subtitle) @ ''<br/><font point-size="10">'' @ body @ ''</font>>'')\<close>
    using assms by (simp add: format_node_label_def)
  then show ?thesis by blast
qed

lemma format_node_label_plain:
  \<open>format_node_label name key [] =
     Inr (''<<font point-size="12"><b>'' @ html_escape name @ ''</b></font><br/>'' @
          (if key \<noteq> [] then ''<font point-size="9">['' @ html_escape key @ '']<br/></font>'' else []) @
          ''>'')\<close>
  by (simp add: format_node_label_def)

lemma format_node_label_Inr: "\<exists>l. format_node_label name key description = Inr l"
proof (cases "description = []")
  case True
  then show ?thesis by (simp add: format_node_label_plain)
next
  case False
  from format_description_three [of description] obtain body where
    "format_description description = Inr body" by blast
  from format_node_label_span [OF this False] show ?thesis by blast
qed

lemma format_edge_label_lines:
  \<open>\<exists>ls. wrap 24 (Some 3) description = Inr ls \<and> length ls \<le> 3 \<and>
        (\<forall>l \<in> set ls. length l \<le> 24) \<and>
        format_edge_label description =
          Inr (''<<font point-size="10">'' @ str_join ''<br/>'' (map html_escape ls) @ ''</font>>'')\<close>
proof -
  from wrap_three [of 24 description] obtain ls where
    ls: "wrap 24 (Some 3) description = Inr ls" "length ls \<le> 3" "\<forall>l \<in> set ls. length l \<le> 24"
    by auto
  then show ?thesis by (auto simp: format_edge_label_def)
qed

section \<open>Properties of the builders\<close>

text \<open>
  Every node builder returns a node: its attributes are the computed ones, overridden by
  the keyword arguments.
\<close>

lemma Container_Node:
  \<open>\<exists>l. format_node_label name
          (if technology \<noteq> [] then ''Container: '' @ technology else ''Container'') description = Inr l \<and>
        Container name technology description kwargs =
          Inr (Node ([''label'' \<mapsto> l, ''labelloc'' \<mapsto> ''c'', ''shape'' \<mapsto> ''rect'',
                      ''width'' \<mapsto> ''2.6'', ''height'' \<mapsto> ''1.6'', ''fixedsize'' \<mapsto> ''true'',
                      ''style'' \<mapsto> ''filled'', ''fillcolor'' \<mapsto> ''dodgerblue3'',
                      ''fontcolor'' \<mapsto> ''white''] ++ kwargs))\<close>
proof -
  obtain l where \<open>format_node_label name
          (if technology \<noteq> [] then ''Container: '' @ technology else ''Container'') description = Inr l\<close>
    using format_node_label_Inr by blast
  then show ?thesis by (simp add: Container_def)
qed

lemma Database_Node:
  \<open>\<exists>l. format_node_label name
          (if technology \<noteq> [] then ''Database: '' @ technology else ''Database'') description = Inr l \<and>
        Database name technology description kwargs =
          Inr (Node ([''label'' \<mapsto> l, ''shape'' \<mapsto> ''cylinder'',
                      ''width'' \<mapsto> ''2.6'', ''height'' \<mapsto> ''1.6'', ''fixedsize'' \<mapsto> ''true'',
                      ''style'' \<mapsto> ''filled'', ''fillcolor'' \<mapsto> ''dodgerblue3'',
                      ''fontcolor'' \<mapsto> ''white''] ++ kwargs))\<close>
proof -
  obtain l where \<open>format_node_label name
          (if technology \<noteq> [] then ''Database: '' @ technology else ''Database'') description = Inr l\<close>
    using format_node_label_Inr by blast
  then show ?thesis by (simp add: Database_def)
qed

lemma System_Node:
  \<open>\<exists>l. format_node_label name (if external then ''External System'' else ''System'') description = Inr l \<and>
        System name description external kwargs =
          Inr (Node (([''label'' \<mapsto> l, ''labelloc'' \<mapsto> ''c'', ''shape'' \<mapsto> ''rect'',
                      ''width'' \<mapsto> ''2.6'', ''height'' \<mapsto> ''1.6'', ''fixedsize'' \<mapsto> ''true'',
                      ''style'' \<mapsto> ''filled'',
                      ''fillcolor'' \<mapsto> (if external then ''gray60'' else ''dodgerblue4''),
                      ''fontcolor'' \<mapsto> ''white''] ++
                      (if description = [] then [''width'' \<mapsto> ''2'', ''height'' \<mapsto> ''1'']
                       else Map.empty)) ++ kwargs))\<close>
proof -
  obtain l where
    \<open>format_node_label name (if external then ''External System'' else ''System'') description = Inr l\<close>
    using format_node_label_Inr by blast
  then show ?thesis by (simp add: System_def)
qed

lemma Person_Node:
  \<open>\<exists>l. format_node_label name (if external then ''External Person'' else ''Person'') description = Inr l \<and>
        Person name description external kwargs =
          Inr (Node (([''label'' \<mapsto> l, ''labelloc'' \<mapsto> ''c'', ''shape'' \<mapsto> ''rect'',
                      ''width'' \<mapsto> ''2.6'', ''height'' \<mapsto> ''1.6'', ''fixedsize'' \<mapsto> ''true'',
                      ''style'' \<mapsto> ''rounded,filled'',
                      ''fillcolor'' \<mapsto> (if external then ''gray60'' else ''dodgerblue4''),
                      ''fontcolor'' \<mapsto> ''white''] ++
                      (if description = [] then [''width'' \<mapsto> ''2'', ''height'' \<mapsto> ''1'']
                       else Map.empty)) ++ kwargs))\<close>
proof -
  obtain l where
    \<open>format_node_label name (if external then ''External Person'' else ''Person'') description = Inr l\<close>
    using format_node_label_Inr by blast
  then show ?thesis by (simp add: Person_def)
qed

lemma Relationship_Edge:
  \<open>\<exists>l. format_edge_label label = Inr l \<and>
        Relationship label kwargs =
          Inr (Edge (([''style'' \<mapsto> ''dashed'', ''color'' \<mapsto> ''gray60''] ++
                      (if label \<noteq> [] then [''label'' \<mapsto> l] else Map.empty)) ++ kwargs))\<close>
proof -
  obtain l where "format_edge_label label = Inr l"
    using format_edge_label_lines by blast
  then show ?thesis by (simp add: Relationship_def)
qed

text \<open>
  C6.  Whatever the builder, a key that the caller passes as a keyword override maps, in
  the returned descriptor, to the caller's value: the overrides are merged last, after
  the computed attributes and after the collapse of a box without description.
\<close>

theorem caller_overrides_win:
  assumes "kwargs k = Some v"
  shows "attr (Container name technology description kwargs) k = Some v \<and>
         attr (Database name technology description kwargs) k = Some v \<and>
         attr (System name description external kwargs) k = Some v \<and>
         attr (Person name description external kwargs) k = Some v \<and>
         attr (Relationship label kwargs) k = Some v \<and>
         attrs (SystemBoundary name kwargs) k = Some v"
proof -
  have "attr (Container name technology description kwargs) k = Some v"
    using Container_Node [of name technology description kwargs] assms
    by (auto simp: attr_def map_add_def)
  moreover have "attr (Database name technology description kwargs) k = Some v"
    using Database_Node [of name technology description kwargs] assms
    by (auto simp: attr_def map_add_def)
  moreover have "attr (System name description external kwargs) k = Some v"
    using System_Node [of name external description kwargs] assms
    by (auto simp: attr_def map_add_def)
  moreover have "attr (Person name description external kwargs) k = Some v"
    using Person_Node [of name external description kwargs] assms
    by (auto simp: attr_def map_add_def)
  moreover have "attr (Relationship label kwargs) k = Some v"
    using Relationship_Edge [of label kwargs] assms
    by (auto simp: attr_def map_add_def)
  moreover have "attrs (SystemBoundary name kwargs) k = Some v"
    using assms by (simp add: SystemBoundary_def map_add_def)
  ultimately show ?thesis by blast
qed

theorem caller_overrides_win_witness:
  "attr (Container ''API'' [] [] [''fillcolor'' \<mapsto> ''red'']) ''fillcolor'' = Some ''red'' \<and>
   attr (Relationship ''uses'' [''fillcolor'' \<mapsto> ''red'']) ''fillcolor'' = Some ''red'' \<and>
   attrs (SystemBoundary ''API'' [''fillcolor'' \<mapsto> ''red'']) ''fillcolor'' = Some ''red''"
proof -
  have h: "[''fillcolor'' \<mapsto> ''red''] ''fillcolor'' = Some ''red''" by simp
  show ?thesis
    using caller_overrides_win [where kwargs = "[''fillcolor'' \<mapsto> ''red'']" and k = "''fillcolor''"
        and v = "''red''" and name = "''API''" and technology = "[]" and description = "[]"
        and label = "''uses''", OF h]
    by blast
qed

text \<open>
  C9.  Without a \<open>labelloc\<close> override, the Database builder returns a node that has no
  \<open>labelloc\<close> attribute, whereas Container, System and Person set it to \<open>"c"\<close>.
\<close>

theorem database_has_no_labelloc:
  assumes "kwargs ''labelloc'' = None"
  shows "(\<exists>a. Database name technology description kwargs = Inr (Node a) \<and> a ''labelloc'' = None) \<and>
         attr (Container name technology description kwargs) ''labelloc'' = Some ''c'' \<and>
         attr (System name description external kwargs) ''labelloc'' = Some ''c'' \<and>
         attr (Person name description external kwargs) ''labelloc'' = Some ''c''"
proof -
  have "\<exists>a. Database name technology description kwargs = Inr (Node a) \<and> a ''labelloc'' = None"
    using Database_Node [of name technology description kwargs] assms
    by (auto simp: map_add_def)
  moreover have "attr (Container name technology description kwargs) ''labelloc'' = Some ''c''"
    using Container_Node [of name technology description kwargs] assms
    by (auto simp: attr_def map_add_def)
  moreover have "attr (System name description external kwargs) ''labelloc'' = Some ''c''"
    using System_Node [of name external description kwargs] assms
    by (auto simp: attr_def map_add_def)
  moreover have "attr (Person name description external kwargs) ''labelloc'' = Some ''c''"
    using Person_Node [of name external description kwargs] assms
    by (auto simp: attr_def map_add_def)
  ultimately show ?thesis by blast
qed

theorem database_has_no_labelloc_witness:
  "attr (Database ''Orders DB'' ''Postgres'' [] Map.empty) ''labelloc'' = None \<and>
   attr (Database ''Orders DB'' ''Postgres'' [] Map.empty) ''shape'' = Some ''cylinder'' \<and>
   attr (Container ''API'' [] [] Map.empty) ''labelloc'' = Some ''c'' \<and>
   attr (System ''Billing'' [] True Map.empty) ''labelloc'' = Some ''c'' \<and>
   attr (Person ''Customer'' [] False Map.empty) ''labelloc'' = Some ''c''"
proof -
  have h: "(Map.empty :: attributes) ''labelloc'' = None" by simp
  have "attr (Database ''Orders DB'' ''Postgres'' [] Map.empty) ''labelloc'' = None"
    using database_has_no_labelloc [where kwargs = Map.empty and name = "''Orders DB''"
        and technology = "''Postgres''" and description = "[]" and external = True, OF h]
    by (auto simp: attr_def)
  moreover have "attr (Database ''Orders DB'' ''Postgres'' [] Map.empty) ''shape'' = Some ''cylinder''"
    using Database_Node [of "''Orders DB''" "''Postgres''" "[]" Map.empty]
    by (auto simp: attr_def)
  moreover have "attr (Container ''API'' [] [] Map.empty) ''labelloc'' = Some ''c''"
    using database_has_no_labelloc [where kwargs = Map.empty and name = "''API''"
        and technology = "[]" and description = "[]" and external = True, OF h]
    by blast
  moreover have "attr (System ''Billing'' [] True Map.empty) ''labelloc'' = Some ''c''"
    using database_has_no_labelloc [where kwargs = Map.empty and name = "''Billing''"
        and description = "[]" and external = True and technology = "[]", OF h]
    by blast
  moreover have "attr (Person ''Customer'' [] False Map.empty) ''labelloc'' = Some ''c''"
    using database_has_no_labelloc [where kwargs = Map.empty and name = "''Customer''"
        and description = "[]" and external = False and technology = "[]", OF h]
    by blast
  ultimately show ?thesis by blast
qed

text \<open>
  C10.  SystemBoundary hands the raw, unescaped name to the cluster constructor as its
  first argument.  Of the attribute bundle only the \<open>label\<close> entry depends on the name:
  it is the escaped name, unless the caller overrides \<open>label\<close>, and then it is the
  caller's value; the identifier is the raw name in both cases.
\<close>

theorem boundary_identifier_is_raw_name:
  "ident (SystemBoundary name kwargs) = name \<and>
   (\<exists>a. SystemBoundary name kwargs = Cluster name a) \<and>
   (kwargs ''label'' = None \<longrightarrow>
      attrs (SystemBoundary name kwargs) ''label'' = Some (html_escape name)) \<and>
   (kwargs ''label'' = Some v \<longrightarrow> attrs (SystemBoundary name kwargs) ''label'' = Some v) \<and>
   (k \<noteq> ''label'' \<longrightarrow>
      attrs (SystemBoundary name kwargs) k = attrs (SystemBoundary name' kwargs) k)"
  by (auto simp: SystemBoundary_def map_add_def split: option.splits)

theorem boundary_identifier_is_raw_name_witness:
  \<open>ident (SystemBoundary ''R&D <core>'' Map.empty) = ''R&D <core>'' \<and>
   attrs (SystemBoundary ''R&D <core>'' Map.empty) ''label'' = Some ''R&amp;D &lt;core&gt;'' \<and>
   ident (SystemBoundary ''R&D <core>'' [''label'' \<mapsto> ''Research'']) = ''R&D <core>'' \<and>
   attrs (SystemBoundary ''R&D <core>'' [''label'' \<mapsto> ''Research'']) ''label'' = Some ''Research'' \<and>
   attrs (SystemBoundary ''R&D <core>'' Map.empty) ''style'' =
     attrs (SystemBoundary ''Shop'' Map.empty) ''style''\<close>
proof -
  have e: \<open>html_escape ''R&D <core>'' = ''R&amp;D &lt;core&gt;''\<close>
    by (simp add: html_escape_concat escape_char_def)
  have n: "''style'' \<noteq> ''label''" by simp
  show ?thesis
    using boundary_identifier_is_raw_name [of "''R&D <core>''" Map.empty _ "''style''" "''Shop''"]
      boundary_identifier_is_raw_name
        [of "''R&D <core>''" "[''label'' \<mapsto> ''Research'']" "''Research''"]
      e n
    by simp
qed

text \<open>
  C7, as amended.  A System call with an empty description, \<open>external=True\<close>, and no
  override of \<open>width\<close>, \<open>height\<close>, \<open>label\<close> or \<open>fillcolor\<close> returns a node of width 2 and
  height 1, with the key \<open>External System\<close> in its label and the fill \<open>gray60\<close>; with a
  non-empty description and no override of \<open>width\<close> or \<open>height\<close> the size is 2.6 by 1.6.
\<close>

theorem external_system_collapses:
  assumes "kwargs ''width'' = None" and "kwargs ''height'' = None"
  shows \<open>(kwargs ''label'' = None \<longrightarrow> kwargs ''fillcolor'' = None \<longrightarrow>
            attr (System name [] True kwargs) ''width'' = Some ''2'' \<and>
            attr (System name [] True kwargs) ''height'' = Some ''1'' \<and>
            attr (System name [] True kwargs) ''fillcolor'' = Some ''gray60'' \<and>
            attr (System name [] True kwargs) ''label'' =
              Some (''<<font point-size="12"><b>'' @ html_escape name @
                    ''</b></font><br/><font point-size="9">[External System]<br/></font>>'')) \<and>
         (description \<noteq> [] \<longrightarrow>
            attr (System name description external kwargs) ''width'' = Some ''2.6'' \<and>
            attr (System name description external kwargs) ''height'' = Some ''1.6'')\<close>
proof -
  have e: \<open>html_escape ''External System'' = ''External System''\<close>
    by (simp add: html_escape_concat escape_char_def)
  have \<open>attr (System name [] True kwargs) ''width'' = Some ''2'' \<and>
        attr (System name [] True kwargs) ''height'' = Some ''1'' \<and>
        attr (System name [] True kwargs) ''fillcolor'' = Some ''gray60'' \<and>
        attr (System name [] True kwargs) ''label'' =
          Some (''<<font point-size="12"><b>'' @ html_escape name @
                ''</b></font><br/><font point-size="9">[External System]<br/></font>>'')\<close>
    if "kwargs ''label'' = None" "kwargs ''fillcolor'' = None"
    using System_Node [of name True "[]" kwargs] assms that
    by (auto simp: attr_def map_add_def format_node_label_plain e)
  moreover have "attr (System name description external kwargs) ''width'' = Some ''2.6'' \<and>
        attr (System name description external kwargs) ''height'' = Some ''1.6''"
    if "description \<noteq> []"
    using System_Node [of name external description kwargs] assms that
    by (auto simp: attr_def map_add_def)
  ultimately show ?thesis by blast
qed

theorem external_system_collapses_witness:
  \<open>attr (System ''Billing'' [] True Map.empty) ''width'' = Some ''2'' \<and>
   attr (System ''Billing'' [] True Map.empty) ''height'' = Some ''1'' \<and>
   attr (System ''Billing'' [] True Map.empty) ''fillcolor'' = Some ''gray60'' \<and>
   attr (System ''Billing'' [] True Map.empty) ''label'' =
     Some ''<<font point-size="12"><b>Billing</b></font><br/><font point-size="9">[External System]<br/></font>>'' \<and>
   attr (System ''Billing'' ''Sends invoices'' True Map.empty) ''width'' = Some ''2.6'' \<and>
   attr (System ''Billing'' ''Sends invoices'' True Map.empty) ''height'' = Some ''1.6''\<close>
proof -
  have h: "(Map.empty :: attributes) ''width'' = None" "(Map.empty :: attributes) ''height'' = None"
    by simp_all
  have e: \<open>html_escape ''Billing'' = ''Billing''\<close>
    by (simp add: html_escape_concat escape_char_def)
  show ?thesis
    using external_system_collapses [where kwargs = Map.empty and name = "''Billing''"
        and description = "''Sends invoices''" and external = True, OF h] e
    by simp
qed

text \<open>
  C7, as first stated, fails: with only the size overrides excluded, an override of the
  fill colour wins over the gray of an external system.
\<close>

theorem external_system_fill_overridden:
  "[''fillcolor'' \<mapsto> ''red''] ''width'' = None \<and>
   [''fillcolor'' \<mapsto> ''red''] ''height'' = None \<and>
   attr (System ''Billing'' [] True [''fillcolor'' \<mapsto> ''red'']) ''fillcolor'' = Some ''red'' \<and>
   attr (System ''Billing'' [] True [''fillcolor'' \<mapsto> ''red'']) ''fillcolor'' \<noteq> Some ''gray60''"
proof -
  have "attr (System ''Billing'' [] True [''fillcolor'' \<mapsto> ''red'']) ''fillcolor'' = Some ''red''"
    using System_Node [of "''Billing''" True "[]" "[''fillcolor'' \<mapsto> ''red'']"]
    by (auto simp: attr_def)
  then show ?thesis by simp
qed

text \<open>
  C8.  Without a label override, the label of a node is the node label of its category
  key: \<open>Container\<close> or \<open>Database\<close> alone for an empty technology and followed by a colon,
  a space and the technology otherwise; \<open>System\<close> or \<open>Person\<close>, with the prefix
  \<open>External\<close> exactly when the external flag is set.  Without an override of these
  attributes, a Database node is a cylinder of the fixed size 2.6 by 1.6.
\<close>

theorem category_keys:
  assumes "kwargs ''label'' = None"
  shows \<open>(\<exists>key l. key = (if technology = [] then ''Container'' else ''Container: '' @ technology) \<and>
            format_node_label name key description = Inr l \<and>
            attr (Container name technology description kwargs) ''label'' = Some l) \<and>
         (\<exists>key l. key = (if technology = [] then ''Database'' else ''Database: '' @ technology) \<and>
            format_node_label name key description = Inr l \<and>
            attr (Database name technology description kwargs) ''label'' = Some l) \<and>
         (\<exists>key l. key = (if external then ''External System'' else ''System'') \<and>
            (prefix ''External'' key \<longleftrightarrow> external) \<and>
            format_node_label name key description = Inr l \<and>
            attr (System name description external kwargs) ''label'' = Some l) \<and>
         (\<exists>key l. key = (if external then ''External Person'' else ''Person'') \<and>
            (prefix ''External'' key \<longleftrightarrow> external) \<and>
            format_node_label name key description = Inr l \<and>
            attr (Person name description external kwargs) ''label'' = Some l) \<and>
         (kwargs ''shape'' = None \<longrightarrow>
            attr (Database name technology description kwargs) ''shape'' = Some ''cylinder'') \<and>
         (kwargs ''width'' = None \<longrightarrow>
            attr (Database name technology description kwargs) ''width'' = Some ''2.6'') \<and>
         (kwargs ''height'' = None \<longrightarrow>
            attr (Database name technology description kwargs) ''height'' = Some ''1.6'') \<and>
         (kwargs ''fixedsize'' = None \<longrightarrow>
            attr (Database name technology description kwargs) ''fixedsize'' = Some ''true'')\<close>
proof -
  have c: \<open>\<exists>key l. key = (if technology = [] then ''Container'' else ''Container: '' @ technology) \<and>
            format_node_label name key description = Inr l \<and>
            attr (Container name technology description kwargs) ''label'' = Some l\<close>
    using Container_Node [of name technology description kwargs] assms
    by (auto simp: attr_def map_add_def)
  have d: \<open>\<exists>key l. key = (if technology = [] then ''Database'' else ''Database: '' @ technology) \<and>
            format_node_label name key description = Inr l \<and>
            attr (Database name technology description kwargs) ''label'' = Some l\<close>
    using Database_Node [of name technology description kwargs] assms
    by (auto simp: attr_def map_add_def)
  have s: \<open>\<exists>key l. key = (if external then ''External System'' else ''System'') \<and>
            (prefix ''External'' key \<longleftrightarrow> external) \<and>
            format_node_label name key description = Inr l \<and>
            attr (System name description external kwargs) ''label'' = Some l\<close>
    using System_Node [of name external description kwargs] assms
    by (auto simp: attr_def map_add_def)
  have p: \<open>\<exists>key l. key = (if external then ''External Person'' else ''Person'') \<and>
            (prefix ''External'' key \<longleftrightarrow> external) \<and>
            format_node_label name key description = Inr l \<and>
            attr (Person name description external kwargs) ''label'' = Some l\<close>
    using Person_Node [of name external description kwargs] assms
    by (auto simp: attr_def map_add_def)
  have a: \<open>(kwargs ''shape'' = None \<longrightarrow>
            attr (Database name technology description kwargs) ''shape'' = Some ''cylinder'') \<and>
         (kwargs ''width'' = None \<longrightarrow>
            attr (Database name technology description kwargs) ''width'' = Some ''2.6'') \<and>
         (kwargs ''height'' = None \<longrightarrow>
            attr (Database name technology description kwargs) ''height'' = Some ''1.6'') \<and>
         (kwargs ''fixedsize'' = None \<longrightarrow>
            attr (Database name technology description kwargs) ''fixedsize'' = Some ''true'')\<close>
    using Database_Node [of name technology description kwargs]
    by (auto simp: attr_def map_add_def)
  from c d s p a show ?thesis by blast
qed

theorem category_keys_witness:
  \<open>attr (Database ''Orders DB'' ''Postgres'' [] Map.empty) ''label'' =
     Some ''<<font point-size="12"><b>Orders DB</b></font><br/><font point-size="9">[Database: Postgres]<br/></font>>'' \<and>
   attr (Database ''Orders DB'' ''Postgres'' [] Map.empty) ''shape'' = Some ''cylinder'' \<and>
   attr (Database ''Orders DB'' ''Postgres'' [] Map.empty) ''width'' = Some ''2.6'' \<and>
   attr (Database ''Orders DB'' ''Postgres'' [] Map.empty) ''height'' = Some ''1.6'' \<and>
   attr (Database ''Orders DB'' ''Postgres'' [] Map.empty) ''fixedsize'' = Some ''true''\<close>
proof -
  have h: "(Map.empty :: attributes) ''label'' = None" by simp
  have e: \<open>html_escape ''Orders DB'' = ''Orders DB''\<close>
    \<open>html_escape ''Database: Postgres'' = ''Database: Postgres''\<close>
    by (simp_all add: html_escape_concat escape_char_def)
  have l: \<open>format_node_label ''Orders DB'' ''Database: Postgres'' [] =
     Inr ''<<font point-size="12"><b>Orders DB</b></font><br/><font point-size="9">[Database: Postgres]<br/></font>>''\<close>
    by (simp add: format_node_label_plain e)
  show ?thesis
    using category_keys [where kwargs = Map.empty and name = "''Orders DB''"
        and technology = "''Postgres''" and description = "[]" and external = False, OF h] l
    by auto
qed

section \<open>Properties of the labels\<close>

lemma format_description_empty: \<open>format_description [] = Inr ''<br/><br/>''\<close>
  by code_simp

text \<open>
  C1, as amended.  The description formatter returns a body of exactly three rendered
  lines for every description, three blank lines for the empty one.  A node builder
  called with a non-empty description, and no label override, returns a label that ends
  with the description span around that three-line body.  For an empty description the
  node label is the title and the subtitle alone.
\<close>

theorem node_label_body_three_lines:
  assumes "kwargs ''label'' = None"
  shows \<open>(\<exists>body. format_description description = Inr body \<and>
            length (rendered_lines body) = 3 \<and>
            (description \<noteq> [] \<longrightarrow>
               (\<exists>pre. attr (Container name technology description kwargs) ''label'' =
                   Some (pre @ ''<br/><font point-size="10">'' @ body @ ''</font>>'')) \<and>
               (\<exists>pre. attr (Database name technology description kwargs) ''label'' =
                   Some (pre @ ''<br/><font point-size="10">'' @ body @ ''</font>>'')) \<and>
               (\<exists>pre. attr (System name description external kwargs) ''label'' =
                   Some (pre @ ''<br/><font point-size="10">'' @ body @ ''</font>>'')) \<and>
               (\<exists>pre. attr (Person name description external kwargs) ''label'' =
                   Some (pre @ ''<br/><font point-size="10">'' @ body @ ''</font>>'')))) \<and>
         format_description [] = Inr ''<br/><br/>'' \<and>
         format_node_label name key [] =
           Inr (''<<font point-size="12"><b>'' @ html_escape name @ ''</b></font><br/>'' @
                (if key \<noteq> [] then ''<font point-size="9">['' @ html_escape key @ '']<br/></font>''
                 else []) @ ''>'')\<close>
proof -
  obtain body where body: "format_description description = Inr body"
    "length (rendered_lines body) = 3"
    using format_description_three by blast
  have \<open>(\<exists>pre. attr (Container name technology description kwargs) ''label'' =
                   Some (pre @ ''<br/><font point-size="10">'' @ body @ ''</font>>'')) \<and>
               (\<exists>pre. attr (Database name technology description kwargs) ''label'' =
                   Some (pre @ ''<br/><font point-size="10">'' @ body @ ''</font>>'')) \<and>
               (\<exists>pre. attr (System name description external kwargs) ''label'' =
                   Some (pre @ ''<br/><font point-size="10">'' @ body @ ''</font>>'')) \<and>
               (\<exists>pre. attr (Person name description external kwargs) ''label'' =
                   Some (pre @ ''<br/><font point-size="10">'' @ body @ ''</font>>''))\<close>
    if ne: "description \<noteq> []"
  proof -
    note span = format_node_label_span [OF body(1) ne]
    have \<open>\<exists>pre. attr (Container name technology description kwargs) ''label'' =
                   Some (pre @ ''<br/><font point-size="10">'' @ body @ ''</font>>'')\<close>
      using Container_Node [of name technology description kwargs] assms
        span [of name "if technology \<noteq> [] then ''Container: '' @ technology else ''Container''"]
      by (auto simp: attr_def map_add_def)
    moreover have \<open>\<exists>pre. attr (Database name technology description kwargs) ''label'' =
                   Some (pre @ ''<br/><font point-size="10">'' @ body @ ''</font>>'')\<close>
      using Database_Node [of name technology description kwargs] assms
        span [of name "if technology \<noteq> [] then ''Database: '' @ technology else ''Database''"]
      by (auto simp: attr_def map_add_def)
    moreover have \<open>\<exists>pre. attr (System name description external kwargs) ''label'' =
                   Some (pre @ ''<br/><font point-size="10">'' @ body @ ''</font>>'')\<close>
      using System_Node [of name external description kwargs] assms
        span [of name "if external then ''External System'' else ''System''"]
      by (auto simp: attr_def map_add_def)
    moreover have \<open>\<exists>pre. attr (Person name description external kwargs) ''label'' =
                   Some (pre @ ''<br/><font point-size="10">'' @ body @ ''</font>>'')\<close>
      using Person_Node [of name external description kwargs] assms
        span [of name "if external then ''External Person'' else ''Person''"]
      by (auto simp: attr_def map_add_def)
    ultimately show ?thesis by blast
  qed
  with body format_description_empty format_node_label_plain [of name key]
  show ?thesis by blast
qed

theorem node_label_body_three_lines_witness:
  \<open>format_description ''Stores orders'' = Inr ''Stores orders<br/><br/>'' \<and>
   rendered_lines ''Stores orders<br/><br/>'' = [''Stores orders'', [], []] \<and>
   attr (Database ''Orders DB'' ''Postgres'' ''Stores orders'' Map.empty) ''label'' =
     Some ''<<font point-size="12"><b>Orders DB</b></font><br/><font point-size="9">[Database: Postgres]<br/></font><br/><font point-size="10">Stores orders<br/><br/></font>>'' \<and>
   format_description [] = Inr ''<br/><br/>''\<close>
proof -
  have h: "(Map.empty :: attributes) ''label'' = None" by simp
  have ne: "''Stores orders'' \<noteq> []" by simp
  have fd: \<open>format_description ''Stores orders'' = Inr ''Stores orders<br/><br/>''\<close>
    by code_simp
  have rl: \<open>rendered_lines ''Stores orders<br/><br/>'' = [''Stores orders'', [], []]\<close>
    by code_simp
  have l: \<open>attr (Database ''Orders DB'' ''Postgres'' ''Stores orders'' Map.empty) ''label'' =
     Some ''<<font point-size="12"><b>Orders DB</b></font><br/><font point-size="9">[Database: Postgres]<br/></font><br/><font point-size="10">Stores orders<br/><br/></font>>''\<close>
    by code_simp
  show ?thesis
    using node_label_body_three_lines [where kwargs = Map.empty and description = "''Stores orders''"
        and name = "''Orders DB''" and technology = "''Postgres''" and external = False
        and key = "[]", OF h] fd rl l
    by simp
qed

text \<open>
  C1, as first stated, fails at the empty description: the label of
  \<open>Container(name="API")\<close> is the title and the subtitle, with no description span in it.
\<close>

theorem empty_description_label_has_no_body:
  \<open>attr (Container ''API'' [] [] Map.empty) ''label'' =
     Some ''<<font point-size="12"><b>API</b></font><br/><font point-size="9">[Container]<br/></font>>'' \<and>
   \<not> sublist ''<font point-size="10">''
        ''<<font point-size="12"><b>API</b></font><br/><font point-size="9">[Container]<br/></font>>''\<close>
  by code_simp

text \<open>
  C2, as amended.  Formatting the formatter's own output again gives again a body of
  exactly three rendered lines, and the padding step alone is idempotent; the three
  lines of the second pass are in general not those of the first.
\<close>

theorem format_description_again_three_lines:
  "(\<exists>body body'. format_description description = Inr body \<and>
       length (rendered_lines body) = 3 \<and>
       format_description body = Inr body' \<and>
       length (rendered_lines body') = 3) \<and>
   pad_lines (pad_lines ls) = pad_lines ls"
proof -
  obtain body where body: "format_description description = Inr body"
    "length (rendered_lines body) = 3"
    using format_description_three by blast
  obtain body' where "format_description body = Inr body'" "length (rendered_lines body') = 3"
    using format_description_three by blast
  moreover have "pad_lines (pad_lines ls) = pad_lines ls"
    by (simp add: pad_lines_def)
  ultimately show ?thesis using body by blast
qed

theorem format_description_again_three_lines_witness:
  \<open>format_description ''abc'' = Inr ''abc<br/><br/>'' \<and>
   length (rendered_lines ''abc<br/><br/>'') = 3 \<and>
   format_description ''abc<br/><br/>'' = Inr ''abc&lt;br/&gt;&lt;br/&gt;<br/><br/>'' \<and>
   length (rendered_lines ''abc&lt;br/&gt;&lt;br/&gt;<br/><br/>'') = 3 \<and>
   pad_lines (pad_lines [''abc'']) = pad_lines [''abc'']\<close>
proof -
  have a: \<open>format_description ''abc'' = Inr ''abc<br/><br/>''\<close>
    by code_simp
  have b: \<open>format_description ''abc<br/><br/>'' = Inr ''abc&lt;br/&gt;&lt;br/&gt;<br/><br/>''\<close>
    by code_simp
  show ?thesis
    using format_description_again_three_lines [of "''abc''" "[''abc'']"] a b
    by auto
qed

text \<open>
  C2, as first stated, fails: the second pass escapes the line breaks that the first
  pass wrote, so its result differs from the first.
\<close>

theorem format_description_not_idempotent:
  \<open>format_description ''abc'' = Inr ''abc<br/><br/>'' \<and>
   format_description ''abc<br/><br/>'' = Inr ''abc&lt;br/&gt;&lt;br/&gt;<br/><br/>'' \<and>
   format_description ''abc<br/><br/>'' \<noteq> format_description ''abc''\<close>
proof -
  have a: \<open>format_description ''abc'' = Inr ''abc<br/><br/>''\<close>
    by code_simp
  have b: \<open>format_description ''abc<br/><br/>'' = Inr ''abc&lt;br/&gt;&lt;br/&gt;<br/><br/>''\<close>
    by code_simp
  show ?thesis by (simp add: a b)
qed

lemma raw_markup_join:
  "\<forall>x \<in> set xs. raw_markup x = [] \<Longrightarrow>
   raw_markup (str_join sep xs) = concat (replicate (length xs - 1) (raw_markup sep))"
proof (induction sep xs rule: str_join.induct)
  case (1 sep)
  then show ?case by (simp add: raw_markup_def)
next
  case (2 sep x)
  then show ?case by simp
next
  case (3 sep x y ys)
  then show ?case by (simp add: raw_markup_append)
qed

lemma raw_markup_replicate:
  "raw_markup (concat (replicate n s)) = concat (replicate n (raw_markup s))"
  by (induction n) (simp_all add: raw_markup_append, simp add: raw_markup_def)


lemma amp_escaped_join:
  "amp_escaped sep \<Longrightarrow> \<forall>x \<in> set xs. amp_escaped x \<Longrightarrow> amp_escaped (str_join sep xs)"
  by (induction sep xs rule: str_join.induct) (simp_all add: amp_escaped_append)

lemma amp_escaped_br: \<open>amp_escaped ''<br/>''\<close>
  by simp







text \<open>
  The edge label of a description, line by line: every wrapped line is escaped character
  by character, so the raw markup characters of the label are those of the span and of
  the line breaks between the lines, and each of its ampersands begins an entity.
\<close>

lemma edge_label_escaped:
  \<open>\<exists>ls l. wrap 24 (Some 3) description = Inr ls \<and> length ls \<le> 3 \<and>
        (\<forall>x \<in> set ls. length x \<le> 24) \<and>
        format_edge_label description = Inr l \<and>
        l = ''<<font point-size="10">'' @ str_join ''<br/>'' (map html_escape ls) @ ''</font>>'' \<and>
        (\<forall>x \<in> set ls. html_escape x = concat (map escape_char x) \<and>
                         raw_markup (html_escape x) = [] \<and> amp_escaped (html_escape x)) \<and>
        raw_markup l =
          raw_markup (''<<font point-size="10">'' @ concat (replicate (length ls - 1) ''<br/>'') @
                      ''</font>>'') \<and>
        amp_escaped l\<close>
proof -
  from format_edge_label_lines [of description] obtain ls where
    ls: "wrap 24 (Some 3) description = Inr ls" "length ls \<le> 3" "\<forall>x \<in> set ls. length x \<le> 24"
    \<open>format_edge_label description =
       Inr (''<<font point-size="10">'' @ str_join ''<br/>'' (map html_escape ls) @ ''</font>>'')\<close>
    by blast
  let ?text = \<open>str_join ''<br/>'' (map html_escape ls)\<close>
  let ?l = \<open>''<<font point-size="10">'' @ ?text @ ''</font>>''\<close>
  have e: "\<forall>x \<in> set (map html_escape ls). raw_markup x = []"
    using raw_markup_html_escape by auto
  have \<open>raw_markup ?text = raw_markup (concat (replicate (length ls - 1) ''<br/>''))\<close>
    using raw_markup_join [OF e, of "''<br/>''"] by (simp add: raw_markup_replicate)
  then have rm: \<open>raw_markup ?l =
      raw_markup (''<<font point-size="10">'' @ concat (replicate (length ls - 1) ''<br/>'') @
                  ''</font>>'')\<close>
    by (simp only: raw_markup_append)
  have "amp_escaped ?text"
    using amp_escaped_html_escape by (intro amp_escaped_join amp_escaped_br) auto
  then have am: "amp_escaped ?l"
    by (intro amp_escaped_append) simp_all
  have each: "\<forall>x \<in> set ls. html_escape x = concat (map escape_char x) \<and>
                         raw_markup (html_escape x) = [] \<and> amp_escaped (html_escape x)"
    using html_escape_concat raw_markup_html_escape amp_escaped_html_escape by blast
  from ls rm am each show ?thesis by blast
qed

text \<open>
  C4.  Relationship is never called with \<open>label\<close> among its extra keywords.  With an
  empty description the returned edge has no label attribute.  With a non-empty one the
  label is the description wrapped to at most three lines of at most 24 characters,
  each line escaped, the lines joined by line breaks, inside the small-font span.  That
  a line is escaped means that each of its characters is replaced by what \<open>escape_char\<close>
  gives for it, so that the line holds no raw markup character and each of its
  ampersands begins an entity; the raw markup characters of the whole label are then
  those of the span and of the line breaks.
\<close>

theorem relationship_label:
  assumes "kwargs ''label'' = None"
  shows \<open>(\<exists>a. Relationship [] kwargs = Inr (Edge a) \<and> a ''label'' = None) \<and>
         (label \<noteq> [] \<longrightarrow>
            (\<exists>ls l. wrap 24 (Some 3) label = Inr ls \<and> length ls \<le> 3 \<and>
               (\<forall>x \<in> set ls. length x \<le> 24) \<and>
               attr (Relationship label kwargs) ''label'' = Some l \<and>
               l = ''<<font point-size="10">'' @ str_join ''<br/>'' (map html_escape ls) @
                   ''</font>>'' \<and>
               (\<forall>x \<in> set ls. html_escape x = concat (map escape_char x) \<and>
                                raw_markup (html_escape x) = [] \<and>
                                amp_escaped (html_escape x)) \<and>
               raw_markup l =
                 raw_markup (''<<font point-size="10">'' @
                             concat (replicate (length ls - 1) ''<br/>'') @ ''</font>>'') \<and>
               amp_escaped l))\<close>
proof -
  have "\<exists>a. Relationship [] kwargs = Inr (Edge a) \<and> a ''label'' = None"
    using Relationship_Edge [of "[]" kwargs] assms by (auto simp: map_add_def)
  moreover have \<open>\<exists>ls l. wrap 24 (Some 3) label = Inr ls \<and> length ls \<le> 3 \<and>
               (\<forall>x \<in> set ls. length x \<le> 24) \<and>
               attr (Relationship label kwargs) ''label'' = Some l \<and>
               l = ''<<font point-size="10">'' @ str_join ''<br/>'' (map html_escape ls) @
                   ''</font>>'' \<and>
               (\<forall>x \<in> set ls. html_escape x = concat (map escape_char x) \<and>
                                raw_markup (html_escape x) = [] \<and>
                                amp_escaped (html_escape x)) \<and>
               raw_markup l =
                 raw_markup (''<<font point-size="10">'' @
                             concat (replicate (length ls - 1) ''<br/>'') @ ''</font>>'') \<and>
               amp_escaped l\<close>
    if ne: "label \<noteq> []"
  proof -
    from edge_label_escaped [of label] obtain ls l where
      f: "wrap 24 (Some 3) label = Inr ls" "length ls \<le> 3" "\<forall>x \<in> set ls. length x \<le> 24"
      "format_edge_label label = Inr l"
      \<open>l = ''<<font point-size="10">'' @ str_join ''<br/>'' (map html_escape ls) @ ''</font>>''\<close>
      "\<forall>x \<in> set ls. html_escape x = concat (map escape_char x) \<and>
                         raw_markup (html_escape x) = [] \<and> amp_escaped (html_escape x)"
      \<open>raw_markup l =
          raw_markup (''<<font point-size="10">'' @ concat (replicate (length ls - 1) ''<br/>'') @
                      ''</font>>'')\<close>
      "amp_escaped l"
      by blast
    have "attr (Relationship label kwargs) ''label'' = Some l"
      using Relationship_Edge [of label kwargs] assms ne f(4)
      by (auto simp: attr_def map_add_def)
    with f show ?thesis by blast
  qed
  ultimately show ?thesis by blast
qed

theorem relationship_label_witness:
  \<open>attr (Relationship [] Map.empty) ''label'' = None \<and>
   wrap 24 (Some 3) ''Sends invoice data nightly via batch job'' =
     Inr [''Sends invoice data'', ''nightly via batch job''] \<and>
   attr (Relationship ''Sends invoice data nightly via batch job'' Map.empty) ''label'' =
     Some ''<<font point-size="10">Sends invoice data<br/>nightly via batch job</font>>'' \<and>
   wrap 24 (Some 3) ''Sends <invoice> & "totals" nightly'' =
     Inr [''Sends <invoice> &'', ''"totals" nightly''] \<and>
   attr (Relationship ''Sends <invoice> & "totals" nightly'' Map.empty) ''label'' =
     Some ''<<font point-size="10">Sends &lt;invoice&gt; &amp;<br/>&quot;totals&quot; nightly</font>>'' \<and>
   raw_markup ''<<font point-size="10">Sends &lt;invoice&gt; &amp;<br/>&quot;totals&quot; nightly</font>>'' =
     raw_markup ''<<font point-size="10"><br/></font>>'' \<and>
   amp_escaped ''<<font point-size="10">Sends &lt;invoice&gt; &amp;<br/>&quot;totals&quot; nightly</font>>''\<close>
proof -
  have h: "(Map.empty :: attributes) ''label'' = None" by simp
  have w1: \<open>wrap 24 (Some 3) ''Sends invoice data nightly via batch job'' =
     Inr [''Sends invoice data'', ''nightly via batch job'']\<close>
    by code_simp
  have w2: \<open>wrap 24 (Some 3) ''Sends <invoice> & "totals" nightly'' =
     Inr [''Sends <invoice> &'', ''"totals" nightly'']\<close>
    by code_simp
  have e: \<open>concat (map escape_char ''Sends invoice data'') = ''Sends invoice data''\<close>
    \<open>concat (map escape_char ''nightly via batch job'') = ''nightly via batch job''\<close>
    \<open>concat (map escape_char ''Sends <invoice> &'') = ''Sends &lt;invoice&gt; &amp;''\<close>
    \<open>concat (map escape_char ''"totals" nightly'') = ''&quot;totals&quot; nightly''\<close>
    by (simp_all add: escape_char_def)
  have a0: "attr (Relationship [] Map.empty) ''label'' = None"
    using relationship_label [where kwargs = Map.empty and label = "[]", OF h]
    by (auto simp: attr_def)
  have a1: \<open>attr (Relationship ''Sends invoice data nightly via batch job'' Map.empty) ''label'' =
     Some ''<<font point-size="10">Sends invoice data<br/>nightly via batch job</font>>''\<close>
    using relationship_label [where kwargs = Map.empty
        and label = "''Sends invoice data nightly via batch job''", OF h] w1 e
    by auto
  from relationship_label [where kwargs = Map.empty
        and label = \<open>''Sends <invoice> & "totals" nightly''\<close>, OF h]
  obtain ls l where
    f: \<open>wrap 24 (Some 3) ''Sends <invoice> & "totals" nightly'' = Inr ls\<close>
    \<open>attr (Relationship ''Sends <invoice> & "totals" nightly'' Map.empty) ''label'' = Some l\<close>
    \<open>l = ''<<font point-size="10">'' @ str_join ''<br/>'' (map html_escape ls) @ ''</font>>''\<close>
    "\<forall>x \<in> set ls. html_escape x = concat (map escape_char x) \<and>
                         raw_markup (html_escape x) = [] \<and> amp_escaped (html_escape x)"
    \<open>raw_markup l =
          raw_markup (''<<font point-size="10">'' @ concat (replicate (length ls - 1) ''<br/>'') @
                      ''</font>>'')\<close>
    "amp_escaped l"
    by auto
  from f(1) w2 have ls: \<open>ls = [''Sends <invoice> &'', ''"totals" nightly'']\<close> by simp
  with f(4) e have esc: \<open>html_escape ''Sends <invoice> &'' = ''Sends &lt;invoice&gt; &amp;''\<close>
    \<open>html_escape ''"totals" nightly'' = ''&quot;totals&quot; nightly''\<close>
    by simp_all
  have l: \<open>l = ''<<font point-size="10">Sends &lt;invoice&gt; &amp;<br/>&quot;totals&quot; nightly</font>>''\<close>
    using f(3) ls esc by simp
  from f(5) ls have \<open>raw_markup l = raw_markup ''<<font point-size="10"><br/></font>>''\<close>
    by simp
  with a0 a1 w1 w2 f(2) f(6) l show ?thesis by simp
qed

lemma html_escape_placeholder: \<open>html_escape (p @ '' [...]'') = html_escape p @ '' [...]''\<close>
  by (simp add: html_escape_append) (simp add: html_escape_concat escape_char_def)

lemma html_escape_marker: \<open>html_escape ''[...]'' = ''[...]''\<close>
  by (simp add: html_escape_concat escape_char_def)

text \<open>
  What the line limit does to a description whose wrapping at 40 characters without a
  limit has more than three lines: three lines or two are kept; all but the last are
  lines of the unlimited wrapping, and the last is a beginning of the corresponding
  line of the unlimited wrapping followed by the placeholder \<open>' [...]'\<close>, or the bare
  marker \<open>'[...]'\<close>.  The body renders these lines escaped and padded to three.
\<close>

lemma truncated_description_ends_with_marker:
  assumes "wrap 40 None description = Inr U" and "3 < length U"
  shows \<open>\<exists>R body. wrap 40 (Some 3) description = Inr R \<and>
           (length R = 3 \<or> length R = 2) \<and>
           butlast R = take (length R - 1) U \<and>
           ((\<exists>p. prefix p (U ! (length R - 1)) \<and> last R = p @ '' [...]'') \<or>
            last R = ''[...]'') \<and>
           format_description description = Inr body \<and>
           rendered_lines body = pad_lines (map html_escape R) \<and>
           suffix ''[...]'' (rendered_lines body ! (length R - 1)) \<and>
           (if length R = 2 then rendered_lines body ! 2 = [] else True)\<close>
proof -
  let ?chunks = "split (munge_whitespace description)"
  let ?R = "wrap_loop 40 (Some 3) [] ?chunks"
  have U: "U = wrap_loop 40 None [] ?chunks"
    using assms(1) wrap_Inr [of 40 None description] by simp
  have R: "wrap 40 (Some 3) description = Inr ?R"
    using wrap_Inr [of 40 "Some 3" description] by simp
  have "length ([] :: string list) < 3" by simp
  moreover have "3 < length (wrap_loop 40 None [] ?chunks)"
    using assms(2) U by simp
  ultimately have t: "?R \<noteq> [] \<and> (length ?R = 3 \<or> Suc (length ?R) = 3) \<and>
       butlast ?R = take (length ?R - 1) (wrap_loop 40 None [] ?chunks) \<and>
       ((\<exists>p. prefix p (wrap_loop 40 None [] ?chunks ! (length ?R - 1)) \<and>
             last ?R = p @ placeholder) \<or>
        last ?R = str_lstrip placeholder)"
    by (rule wrap_loop_truncated)
  then have ne: "?R \<noteq> []" and len: "length ?R = 3 \<or> length ?R = 2"
    and bl: "butlast ?R = take (length ?R - 1) U"
    and la: \<open>(\<exists>p. prefix p (U ! (length ?R - 1)) \<and> last ?R = p @ '' [...]'') \<or>
             last ?R = ''[...]''\<close>
    unfolding U [symmetric] lstrip_placeholder by (auto simp: placeholder_def)
  from format_description_lines [of description] R obtain body where
    body: "format_description description = Inr body"
    "rendered_lines body = pad_lines (map html_escape ?R)"
    by auto
  have "length ?R - 1 < length ?R" using ne by simp
  then have "pad_lines (map html_escape ?R) ! (length ?R - 1) = html_escape (last ?R)"
    using ne by (simp add: pad_lines_def nth_append last_conv_nth)
  moreover have \<open>suffix ''[...]'' (html_escape (last ?R))\<close>
  proof -
    from la show ?thesis
    proof
      assume \<open>\<exists>p. prefix p (U ! (length ?R - 1)) \<and> last ?R = p @ '' [...]''\<close>
      then obtain p where \<open>last ?R = p @ '' [...]''\<close> by blast
      then have \<open>html_escape (last ?R) = (html_escape p @ '' '') @ ''[...]''\<close>
        by (simp add: html_escape_placeholder)
      then show ?thesis by (metis suffixI)
    next
      assume \<open>last ?R = ''[...]''\<close>
      then show ?thesis by (simp add: html_escape_marker)
    qed
  qed
  ultimately have su: \<open>suffix ''[...]'' (rendered_lines body ! (length ?R - 1))\<close>
    using body(2) by simp
  have em: "rendered_lines body ! 2 = []" if "length ?R = 2"
    using that body(2) by (simp add: pad_lines_def nth_append)
  from R len bl la body su em show ?thesis by auto
qed

lemma truncated_description_ends_with_marker_example:
  \<open>wrap 40 None ''Handles checkout, payment capture and refunds for all storefronts, and notifies the warehouse and the billing system about every completed order'' =
     Inr [''Handles checkout, payment capture and'', ''refunds for all storefronts, and'',
          ''notifies the warehouse and the billing'', ''system about every completed order''] \<and>
   wrap 40 (Some 3) ''Handles checkout, payment capture and refunds for all storefronts, and notifies the warehouse and the billing system about every completed order'' =
     Inr [''Handles checkout, payment capture and'', ''refunds for all storefronts, and'',
          ''notifies the warehouse and the [...]''] \<and>
   suffix ''[...]'' (html_escape ''notifies the warehouse and the [...]'') \<and>
   format_description ''Handles checkout, payment capture and refunds for all storefronts, and notifies the warehouse and the billing system about every completed order'' =
     Inr ''Handles checkout, payment capture and<br/>refunds for all storefronts, and<br/>notifies the warehouse and the [...]''\<close>
proof -
  let ?d = \<open>''Handles checkout, payment capture and refunds for all storefronts, and notifies the warehouse and the billing system about every completed order''\<close>
  let ?U = \<open>[''Handles checkout, payment capture and'', ''refunds for all storefronts, and'',
          ''notifies the warehouse and the billing'', ''system about every completed order'']\<close>
  have u: "wrap 40 None ?d = Inr ?U"
    by code_simp
  have l: "3 < length ?U" by simp
  have r: \<open>wrap 40 (Some 3) ?d =
     Inr [''Handles checkout, payment capture and'', ''refunds for all storefronts, and'',
          ''notifies the warehouse and the [...]'']\<close>
    by code_simp
  have f: \<open>format_description ?d =
     Inr ''Handles checkout, payment capture and<br/>refunds for all storefronts, and<br/>notifies the warehouse and the [...]''\<close>
    by code_simp
  have e: \<open>pad_lines (map html_escape [''Handles checkout, payment capture and'',
             ''refunds for all storefronts, and'', ''notifies the warehouse and the [...]'']) ! 2 =
           html_escape ''notifies the warehouse and the [...]''\<close>
    by (simp add: pad_lines_def)
  from truncated_description_ends_with_marker [OF u l] obtain R body where
    a: "wrap 40 (Some 3) ?d = Inr R"
    and c: "rendered_lines body = pad_lines (map html_escape R)"
    and s: \<open>suffix ''[...]'' (rendered_lines body ! (length R - 1))\<close>
    by blast
  from a r have \<open>R = [''Handles checkout, payment capture and'', ''refunds for all storefronts, and'',
          ''notifies the warehouse and the [...]'']\<close>
    by simp
  with c s e have \<open>suffix ''[...]'' (html_escape ''notifies the warehouse and the [...]'')\<close>
    by (simp add: numeral_2_eq_2)
  with u r f show ?thesis by blast
qed

text \<open>
  C3.  The docstring of \<open>_format_description\<close> promises exactly three lines, with the
  lines after the third discarded and the marker on the last line.  At the description
  below the code does otherwise.  The wrapping without a limit has four lines, and the
  third is a single chunk of 38 characters, which leaves no room for the placeholder;
  the code gives that chunk up and appends the placeholder to the second line.  The
  body keeps two lines of text, the marker ends the second, and the third rendered line
  is empty.
\<close>

theorem marker_on_second_line:
  \<open>wrap 40 None ''Stores all customer orders of the shop. Schema reference: https://wiki.example.com/orders/schema (internal only)'' =
     Inr [''Stores all customer orders of the shop.'', ''Schema reference:'',
          ''https://wiki.example.com/orders/schema'', ''(internal only)''] \<and>
   wrap 40 (Some 3) ''Stores all customer orders of the shop. Schema reference: https://wiki.example.com/orders/schema (internal only)'' =
     Inr [''Stores all customer orders of the shop.'', ''Schema reference: [...]''] \<and>
   format_description ''Stores all customer orders of the shop. Schema reference: https://wiki.example.com/orders/schema (internal only)'' =
     Inr ''Stores all customer orders of the shop.<br/>Schema reference: [...]<br/>'' \<and>
   rendered_lines ''Stores all customer orders of the shop.<br/>Schema reference: [...]<br/>'' =
     [''Stores all customer orders of the shop.'', ''Schema reference: [...]'', []] \<and>
   rendered_lines ''Stores all customer orders of the shop.<br/>Schema reference: [...]<br/>'' ! 2 = [] \<and>
   \<not> suffix ''[...]''
       (rendered_lines ''Stores all customer orders of the shop.<br/>Schema reference: [...]<br/>'' ! 2)\<close>
  by code_simp

end
